theory Spec2Isabelle
  imports Main
begin

section \<open>JavaScript values used by the content script\<close>

text \<open>
  A JavaScript string is modelled as a \<^typ>\<open>string\<close>, one \<^typ>\<open>char\<close> per code unit.
  An optional property (\<^verbatim>\<open>timestamp?: string\<close>) is an \<^typ>\<open>'a option\<close>, \<open>None\<close> being
  \<^verbatim>\<open>undefined\<close>. A \<^verbatim>\<open>Date\<close> is its time value in milliseconds, \<open>None\<close> being the
  Invalid Date, whose time value is NaN. The constructor \<^verbatim>\<open>new Date(s)\<close> is a parameter
  \<open>newDate\<close> of every function that calls it.
\<close>

type_synonym Date = "int option"

text \<open>Comparisons of two dates compare the time values, and are false when one is NaN.\<close>

definition dateLt :: "Date \<Rightarrow> Date \<Rightarrow> bool" where
  "dateLt a b = (case a of None \<Rightarrow> False | Some x \<Rightarrow> (case b of None \<Rightarrow> False | Some y \<Rightarrow> x < y))"

definition dateGt :: "Date \<Rightarrow> Date \<Rightarrow> bool" where
  "dateGt a b = (case a of None \<Rightarrow> False | Some x \<Rightarrow> (case b of None \<Rightarrow> False | Some y \<Rightarrow> x > y))"

definition dateLe :: "Date \<Rightarrow> Date \<Rightarrow> bool" where
  "dateLe a b = (case a of None \<Rightarrow> False | Some x \<Rightarrow> (case b of None \<Rightarrow> False | Some y \<Rightarrow> x \<le> y))"

definition dateGe :: "Date \<Rightarrow> Date \<Rightarrow> bool" where
  "dateGe a b = (case a of None \<Rightarrow> False | Some x \<Rightarrow> (case b of None \<Rightarrow> False | Some y \<Rightarrow> x \<ge> y))"

text \<open>Truthiness of an optional string (undefined and the empty string are falsy).\<close>

definition truthyStr :: "string option \<Rightarrow> bool" where
  "truthyStr s = (case s of None \<Rightarrow> False | Some x \<Rightarrow> x \<noteq> [])"

text \<open>\<^verbatim>\<open>x || ''\<close> on an optional string.\<close>

definition orEmpty :: "string option \<Rightarrow> string" where
  "orEmpty s = (case s of None \<Rightarrow> [] | Some x \<Rightarrow> x)"

text \<open>An optional string inside a template literal: \<^verbatim>\<open>undefined\<close> prints as its name.\<close>

definition template :: "string option \<Rightarrow> string" where
  "template s = (case s of None \<Rightarrow> ''undefined'' | Some x \<Rightarrow> x)"

text \<open>A natural number inside a template literal.\<close>

fun showNat :: "nat \<Rightarrow> string" where
  "showNat n = (if n < 10 then [''0123456789'' ! n]
                else showNat (n div 10) @ [''0123456789'' ! (n mod 10)])"

definition startsWith :: "string \<Rightarrow> string \<Rightarrow> bool" where
  "startsWith s p = (take (length p) s = p)"

fun includesStr :: "string \<Rightarrow> string \<Rightarrow> bool" where
  "includesStr [] p = (p = [])"
| "includesStr (c # cs) p = (startsWith (c # cs) p \<or> includesStr cs p)"

section \<open>Data\<close>

text \<open>
  \<^verbatim>\<open>interface ScrapingConfig\<close>. \<open>maxTweets\<close> is a number or undefined; the popup sets it to
  \<^verbatim>\<open>parseInt(...)\<close>, an integer or NaN. The script only tests it for truthiness and
  compares it under that test, and NaN and undefined are both falsy, so \<open>None\<close> stands
  for both.
\<close>

record DateRange =
  start :: string
  end' :: string

record ScrapingConfig =
  maxTweets :: "int option"
  dateRange :: "DateRange option"
  scrapeAll :: bool

text \<open>\<^verbatim>\<open>interface ScrapedTweet\<close>; the field \<^verbatim>\<open>text\<close> is \<open>text'\<close> here.\<close>

record ScrapedTweet =
  text' :: string
  timestamp :: "string option"
  author :: "string option"
  isThread :: "bool option"
  threadTweets :: "string list option"
  threadPosition :: "nat option"
  quotedTweetUrl :: "string option"
  mediaUrls :: "string list option"

text \<open>
  A rendered tweet node (\<^verbatim>\<open>[data-testid="tweet"]\<close>), as the answers of the DOM queries the
  script makes on it:
  \<^item> \<open>tweetTextContent\<close>: the trimmed text content (or the empty string) of the node that
    the three text strategies of \<^verbatim>\<open>extractTweetData\<close> select, \<open>None\<close> when none selects one;
  \<^item> \<open>datetime\<close>: the \<^verbatim>\<open>datetime\<close> attribute of the first \<^verbatim>\<open>time\<close> element;
  \<^item> \<open>userName\<close>: the trimmed text content of the author node;
  \<^item> \<open>quotedHref\<close>: the \<^verbatim>\<open>href\<close> of the quoted tweet's show-more link;
  \<^item> \<open>photoHrefs\<close>, \<open>videoHrefs\<close>: the \<^verbatim>\<open>href\<close>s of the photo and video links;
  \<^item> \<open>mediaSources\<close>: the \<^verbatim>\<open>src\<close> and \<^verbatim>\<open>poster\<close> attributes of the media elements;
  \<^item> \<open>hasThreadConnector\<close>, \<open>hasPreviousThreadConnector\<close>: whether the connecting line is
    found in the node, and in the previous sibling of its cell.
\<close>

record Element =
  tweetTextContent :: "string option"
  datetime :: "string option"
  userName :: "string option"
  quotedHref :: "string option"
  photoHrefs :: "string option list"
  videoHrefs :: "string option list"
  mediaSources :: "(string option \<times> string option) list"
  hasThreadConnector :: bool
  hasPreviousThreadConnector :: bool

text \<open>What the script sends and does to the page, in order.\<close>

datatype Event =
  StatusUpdate string nat
  | ScrapingComplete "ScrapedTweet list" nat
  | ScrollDown
  | Wait nat

text \<open>
  \<^verbatim>\<open>class TwitterScraper\<close>. \<open>scrollInterval\<close> is true when it holds a timer handle.
  \<open>events\<close> records the messages sent, the scrolls and the waits.
\<close>

record Scraper =
  allTweets :: "ScrapedTweet list"
  scrollInterval :: bool
  isActive :: bool
  config :: ScrapingConfig
  events :: "Event list"

text \<open>
  What a wait ends with: whether a \<^verbatim>\<open>STOP_SCRAPING\<close> message was handled during it, and
  the tweet nodes of the document after it.
\<close>

record Tick =
  stopRequested :: bool
  rendered :: "Element list"

section \<open>Extraction\<close>

definition isDigit :: "char \<Rightarrow> bool" where
  "isDigit c = (c \<in> set ''0123456789'')"

definition isWordChar :: "char \<Rightarrow> bool" where
  "isWordChar c = (isDigit c \<or> c \<in> set ''abcdefghijklmnopqrstuvwxyz''
     \<or> c \<in> set ''ABCDEFGHIJKLMNOPQRSTUVWXYZ'' \<or> c = CHR ''_'')"

text \<open>The pattern \<^verbatim>\<open>/^(\d+|.|@\w+|Show|Hide|More|Reply|Repost|Quote|Like|Share)$/\<close>, whose
  second alternative is the middle dot, code unit 0xB7.\<close>

definition isUiToken :: "string \<Rightarrow> bool" where
  "isUiToken s =
     ((s \<noteq> [] \<and> list_all isDigit s)
      \<or> s = [CHR 0xB7]
      \<or> (case s of [] \<Rightarrow> False | c # w \<Rightarrow> c = CHR ''@'' \<and> w \<noteq> [] \<and> list_all isWordChar w)
      \<or> s \<in> set [''Show'', ''Hide'', ''More'', ''Reply'', ''Repost'', ''Quote'', ''Like'', ''Share''])"

definition absoluteUrl :: "string \<Rightarrow> string" where
  "absoluteUrl href = (if startsWith href ''http'' then href else ''https://x.com'' @ href)"

definition linkUrls :: "string option list \<Rightarrow> string list" where
  "linkUrls hrefs = map (\<lambda>h. absoluteUrl (orEmpty h)) (filter truthyStr hrefs)"

definition directMediaUrls :: "(string option \<times> string option) list \<Rightarrow> string list" where
  "directMediaUrls ms =
     filter (\<lambda>src. src \<noteq> [] \<and> includesStr src ''pbs.twimg.com'')
       (map (\<lambda>(s, p). if truthyStr s then orEmpty s else orEmpty p) ms)"

definition extractTweetData :: "Element \<Rightarrow> ScrapedTweet option" where
  "extractTweetData tweetElement =
     (case tweetTextContent tweetElement of
        None \<Rightarrow> None
      | Some tweetText \<Rightarrow>
          if length tweetText < 2 \<or> isUiToken tweetText then None
          else
            let quoted = (if truthyStr (quotedHref tweetElement)
                          then absoluteUrl (orEmpty (quotedHref tweetElement)) else []);
                media = linkUrls (photoHrefs tweetElement) @ linkUrls (videoHrefs tweetElement)
                        @ directMediaUrls (mediaSources tweetElement)
            in Some \<lparr> text' = tweetText,
                      timestamp = Some (orEmpty (datetime tweetElement)),
                      author = Some (orEmpty (userName tweetElement)),
                      isThread = None,
                      threadTweets = None,
                      threadPosition = None,
                      quotedTweetUrl = (if quoted \<noteq> [] then Some quoted else None),
                      mediaUrls = (if length media > 0 then Some media else None) \<rparr>)"

section \<open>Thread reconstruction\<close>

definition isThreadContinuation :: "Element \<Rightarrow> string \<Rightarrow> string option \<Rightarrow> bool" where
  "isThreadContinuation tweetElement lastAuthor currentAuthor =
     ((hasThreadConnector tweetElement \<or> hasPreviousThreadConnector tweetElement)
      \<and> lastAuthor \<noteq> [] \<and> truthyStr currentAuthor \<and> Some lastAuthor = currentAuthor)"

definition finalizeThread :: "ScrapedTweet list \<Rightarrow> ScrapedTweet list" where
  "finalizeThread thread =
     (let threadTexts = map text' thread
      in map (\<lambda>(tweet, index). tweet\<lparr> isThread := Some True,
                                        threadTweets := Some threadTexts,
                                        threadPosition := Some (index + 1) \<rparr>)
             (zip thread [0 ..< length thread]))"

text \<open>What is pushed to \<^verbatim>\<open>processedTweets\<close> when the current thread is closed.\<close>

definition pushThread :: "ScrapedTweet list \<Rightarrow> ScrapedTweet list" where
  "pushThread thread =
     (if length thread > 1 then finalizeThread thread
      else if length thread = 1 then [thread ! 0]
      else [])"

text \<open>The three variables of the loop of \<^verbatim>\<open>processTweetsForThreads\<close>.\<close>

record ThreadLoop =
  processedTweets :: "ScrapedTweet list"
  currentThread :: "ScrapedTweet list"
  lastAuthor :: string

definition threadStep :: "ThreadLoop \<Rightarrow> Element \<Rightarrow> ThreadLoop" where
  "threadStep l tweetElement =
     (case extractTweetData tweetElement of
        None \<Rightarrow> l
      | Some tweetData \<Rightarrow>
          if isThreadContinuation tweetElement (lastAuthor l) (author tweetData)
             \<and> length (currentThread l) > 0
          then l\<lparr> currentThread := currentThread l @ [tweetData] \<rparr>
          else l\<lparr> processedTweets := processedTweets l @ pushThread (currentThread l),
                  currentThread := [tweetData],
                  lastAuthor := orEmpty (author tweetData) \<rparr>)"

definition processTweetsForThreads :: "Element list \<Rightarrow> ScrapedTweet list" where
  "processTweetsForThreads tweetElements =
     (let l = foldl threadStep
                \<lparr> processedTweets = [], currentThread = [], lastAuthor = [] \<rparr> tweetElements
      in processedTweets l @ pushThread (currentThread l))"

text \<open>
  The groups of the specification, for comparison with the loop: a candidate extends
  the pending group iff it carries the continuation marker and its author is the
  non-empty author of the group; otherwise it starts a new group.
\<close>

definition groupStep :: "ScrapedTweet list list \<Rightarrow> Element \<Rightarrow> ScrapedTweet list list" where
  "groupStep gs tweetElement =
     (case extractTweetData tweetElement of
        None \<Rightarrow> gs
      | Some tweetData \<Rightarrow>
          if gs \<noteq> [] \<and> isThreadContinuation tweetElement (orEmpty (author (hd (last gs)))) (author tweetData)
          then butlast gs @ [last gs @ [tweetData]]
          else gs @ [[tweetData]])"

definition threadGroups :: "Element list \<Rightarrow> ScrapedTweet list list" where
  "threadGroups tweetElements = foldl groupStep [] tweetElements"

text \<open>How the variables of the loop stand to the groups found so far.\<close>

definition loopGroups :: "ThreadLoop \<Rightarrow> ScrapedTweet list list \<Rightarrow> bool" where
  "loopGroups l gs =
     (processedTweets l = concat (map pushThread (butlast gs))
      \<and> currentThread l = (if gs = [] then [] else last gs)
      \<and> lastAuthor l = (if gs = [] then [] else orEmpty (author (hd (last gs))))
      \<and> [] \<notin> set gs)"

text \<open>Removing the thread fields of a record.\<close>

definition withoutThreadFields :: "ScrapedTweet \<Rightarrow> ScrapedTweet" where
  "withoutThreadFields t = t\<lparr> isThread := None, threadTweets := None, threadPosition := None \<rparr>"

section \<open>One collection cycle\<close>

definition sendStatusUpdate :: "string \<Rightarrow> Scraper \<Rightarrow> Scraper" where
  "sendStatusUpdate message st =
     st\<lparr> events := events st @ [StatusUpdate message (length (allTweets st))] \<rparr>"

definition sendScrapingComplete :: "Scraper \<Rightarrow> Scraper" where
  "sendScrapingComplete st =
     st\<lparr> events := events st @ [ScrapingComplete (allTweets st) (length (allTweets st))] \<rparr>"

definition uniqueId :: "ScrapedTweet \<Rightarrow> string" where
  "uniqueId t = take 50 (text' t) @ ''_'' @ template (timestamp t)"

text \<open>\<^verbatim>\<open>this.config.maxTweets && this.allTweets.length >= this.config.maxTweets\<close>\<close>

definition limitReached :: "ScrapingConfig \<Rightarrow> ScrapedTweet list \<Rightarrow> bool" where
  "limitReached cfg tweets =
     (case maxTweets cfg of None \<Rightarrow> False | Some m \<Rightarrow> m \<noteq> 0 \<and> int (length tweets) \<ge> m)"

text \<open>\<^verbatim>\<open>!this.config.maxTweets || this.allTweets.length < this.config.maxTweets\<close>\<close>

definition belowLimit :: "ScrapingConfig \<Rightarrow> ScrapedTweet list \<Rightarrow> bool" where
  "belowLimit cfg tweets =
     (case maxTweets cfg of None \<Rightarrow> True | Some m \<Rightarrow> m = 0 \<or> int (length tweets) < m)"

text \<open>The date range check of \<^verbatim>\<open>scrapeTweets\<close>: true when the tweet is skipped.\<close>

definition outsideDateRange :: "(string \<Rightarrow> Date) \<Rightarrow> ScrapingConfig \<Rightarrow> ScrapedTweet \<Rightarrow> bool" where
  "outsideDateRange newDate cfg processedTweet =
     (case dateRange cfg of
        None \<Rightarrow> False
      | Some r \<Rightarrow>
          truthyStr (timestamp processedTweet) \<and>
          (let tweetDate = newDate (orEmpty (timestamp processedTweet));
               startDate = newDate (start r);
               endDate = newDate (end' r)
           in dateLt tweetDate startDate \<or> dateGt tweetDate endDate))"

text \<open>\<^verbatim>\<open>this.allTweets.some(...)\<close>\<close>

definition alreadyExists :: "ScrapedTweet list \<Rightarrow> ScrapedTweet \<Rightarrow> bool" where
  "alreadyExists tweets processedTweet =
     list_ex (\<lambda>tweet. uniqueId tweet = uniqueId processedTweet
                       \<or> text' tweet = text' processedTweet) tweets"

text \<open>The body of the loop over the processed tweets; \<open>tweets\<close> is \<^verbatim>\<open>this.allTweets\<close>.\<close>

definition scrapeOne ::
  "(string \<Rightarrow> Date) \<Rightarrow> ScrapingConfig \<Rightarrow> ScrapedTweet list \<Rightarrow> ScrapedTweet \<Rightarrow> ScrapedTweet list" where
  "scrapeOne newDate cfg tweets processedTweet =
     (if limitReached cfg tweets then tweets
      else if outsideDateRange newDate cfg processedTweet then tweets
      else if alreadyExists tweets processedTweet then tweets
      else if belowLimit cfg tweets then tweets @ [processedTweet]
      else tweets)"

text \<open>
  \<open>tweetElements\<close> are the tweet nodes of the document as they are when the data is read
  from them, after the show-more buttons have been clicked.
\<close>

definition scrapeTweets :: "(string \<Rightarrow> Date) \<Rightarrow> Scraper \<Rightarrow> Element list \<Rightarrow> Scraper" where
  "scrapeTweets newDate st tweetElements =
     (let processed = processTweetsForThreads tweetElements;
          st1 = st\<lparr> allTweets := foldl (scrapeOne newDate (config st)) (allTweets st) processed \<rparr>
      in if dateRange (config st1) \<noteq> None
         then sendStatusUpdate (''Found '' @ showNat (length (allTweets st1))
                                @ '' tweets in date range, scrolling...'') st1
         else sendStatusUpdate (''Scraped '' @ showNat (length (allTweets st1)) @ '' tweets...'') st1)"

section \<open>The controller\<close>

definition getCurrentTweetDates :: "(string \<Rightarrow> Date) \<Rightarrow> nat \<Rightarrow> Element list \<Rightarrow> Date list" where
  "getCurrentTweetDates newDate count page =
     List.map_filter (\<lambda>element. if truthyStr (datetime element)
                                 then Some (newDate (orEmpty (datetime element))) else None)
       (take count page)"

definition shouldStopScraping :: "(string \<Rightarrow> Date) \<Rightarrow> Scraper \<Rightarrow> Element list \<Rightarrow> bool" where
  "shouldStopScraping newDate st page =
     (if limitReached (config st) (allTweets st) then True
      else if scrapeAll (config st) then False
      else (case dateRange (config st) of
              None \<Rightarrow> False
            | Some r \<Rightarrow>
                (let startDate = newDate (start r);
                     currentPageTweets = getCurrentTweetDates newDate 5 page
                 in length currentPageTweets \<ge> 3
                    \<and> list_all (\<lambda>date. dateLt date startDate) currentPageTweets)))"

definition stopScraping :: "Scraper \<Rightarrow> Scraper" where
  "stopScraping st =
     sendScrapingComplete
       (sendStatusUpdate ''Scraping completed'' (st\<lparr> scrollInterval := False, isActive := False \<rparr>))"

definition scrollDown :: "Scraper \<Rightarrow> Scraper" where
  "scrollDown st = st\<lparr> events := events st @ [ScrollDown] \<rparr>"

text \<open>\<^verbatim>\<open>await new Promise(resolve => setTimeout(resolve, ms))\<close>, up to its suspension.\<close>

definition wait :: "nat \<Rightarrow> Scraper \<Rightarrow> Scraper" where
  "wait ms st = st\<lparr> events := events st @ [Wait ms] \<rparr>"

text \<open>The message listener running during a wait.\<close>

definition deliver :: "Tick \<Rightarrow> Scraper \<Rightarrow> Scraper" where
  "deliver t st = (if stopRequested t then stopScraping st else st)"

text \<open>
  \<open>page\<close> holds the tweet nodes of the document now, \<open>ticks\<close> what the coming waits end
  with. When \<open>ticks\<close> is used up the result is the state at that wait. A stop during the
  three seconds clears the timer, so that the next cycle never runs. Messages are handled
  at the waits of two and three seconds only, not while the show-more buttons expand.
\<close>

fun scrapeAndScroll :: "(string \<Rightarrow> Date) \<Rightarrow> Scraper \<Rightarrow> Element list \<Rightarrow> Tick list \<Rightarrow> Scraper" where
  "scrapeAndScroll newDate st page ticks =
     (if \<not> isActive st then st
      else
        let st1 = scrapeTweets newDate st page
        in if shouldStopScraping newDate st1 page then stopScraping st1
           else
             let st2 = wait 3000 ((scrollDown st1)\<lparr> scrollInterval := True \<rparr>)
             in (case ticks of
                   [] \<Rightarrow> st2
                 | t # ts \<Rightarrow>
                     if stopRequested t then stopScraping st2
                     else scrapeAndScroll newDate st2 (rendered t) ts))"

text \<open>The loop of \<^verbatim>\<open>scrollToDateRange\<close>, with \<^verbatim>\<open>maxAttempts\<close> = 50.\<close>

function seekLoop ::
  "(string \<Rightarrow> Date) \<Rightarrow> Date \<Rightarrow> Date \<Rightarrow> Scraper \<Rightarrow> nat \<Rightarrow> Element list \<Rightarrow> Tick list \<Rightarrow> Scraper" where
  "seekLoop newDate startDate endDate st attempts page ticks =
     (if attempts < 50 \<and> isActive st then
        let currentTweets = getCurrentTweetDates newDate 3 page
        in if length currentTweets = 0 then
             (case ticks of
                [] \<Rightarrow> wait 2000 (scrollDown st)
              | t # ts \<Rightarrow> seekLoop newDate startDate endDate
                            (deliver t (wait 2000 (scrollDown st))) (attempts + 1) (rendered t) ts)
           else if list_ex (\<lambda>date. dateGe date startDate \<and> dateLe date endDate) currentTweets then
             scrapeAndScroll newDate (sendStatusUpdate ''Found tweets in range, scraping...'' st) page ticks
           else if list_all (\<lambda>date. dateGt date endDate) currentTweets then
             (case ticks of
                [] \<Rightarrow> wait 2000 (scrollDown st)
              | t # ts \<Rightarrow> seekLoop newDate startDate endDate
                            (deliver t (wait 2000 (scrollDown st))) (attempts + 1) (rendered t) ts)
           else if list_all (\<lambda>date. dateLt date startDate) currentTweets then
             (if attempts > 40 then
                stopScraping (sendStatusUpdate ''No tweets found in date range'' st)
              else
                (case ticks of
                   [] \<Rightarrow> wait 2000 (scrollDown st)
                 | t # ts \<Rightarrow> seekLoop newDate startDate endDate
                               (deliver t (wait 2000 (scrollDown st))) (attempts + 1) (rendered t) ts))
           else seekLoop newDate startDate endDate st (attempts + 1) page ticks
      else if attempts \<ge> 50 then
        scrapeAndScroll newDate (sendStatusUpdate ''Starting scraping from current position'' st) page ticks
      else st)"
  by pat_completeness auto
termination
  by (relation "measure (\<lambda>(newDate, startDate, endDate, st, attempts, page, ticks). 50 - attempts)") auto

definition scrollToDateRange :: "(string \<Rightarrow> Date) \<Rightarrow> Scraper \<Rightarrow> Element list \<Rightarrow> Tick list \<Rightarrow> Scraper" where
  "scrollToDateRange newDate st page ticks =
     (case dateRange (config st) of
        None \<Rightarrow> st
      | Some r \<Rightarrow>
          seekLoop newDate (newDate (start r)) (newDate (end' r))
            (sendStatusUpdate ''Finding tweets in date range...'' st) 0 page ticks)"

definition startScraping ::
  "(string \<Rightarrow> Date) \<Rightarrow> ScrapingConfig \<Rightarrow> Scraper \<Rightarrow> Element list \<Rightarrow> Tick list \<Rightarrow> Scraper" where
  "startScraping newDate cfg st page ticks =
     (if isActive st then st
      else
        let st1 = sendStatusUpdate ''Starting scraping...''
                    (st\<lparr> config := cfg, isActive := True, allTweets := [] \<rparr>)
        in if dateRange cfg \<noteq> None then scrollToDateRange newDate st1 page ticks
           else scrapeAndScroll newDate st1 page ticks)"

text \<open>The configuration the popup sends, from its mode and its three input fields.\<close>

datatype ScrapeMode = ModeAll | ModeCount | ModeDate

definition popupConfig :: "ScrapeMode \<Rightarrow> int option \<Rightarrow> string \<Rightarrow> string \<Rightarrow> ScrapingConfig" where
  "popupConfig scrapeMode parsedMaxTweets startDate endDate =
     \<lparr> maxTweets = (if scrapeMode = ModeCount then parsedMaxTweets else None),
       dateRange = (if scrapeMode = ModeDate then Some \<lparr> start = startDate, end' = endDate \<rparr> else None),
       scrapeAll = (scrapeMode = ModeAll) \<rparr>"

text \<open>The scraper as its constructor leaves it.\<close>

definition newScraper :: Scraper where
  "newScraper = \<lparr> allTweets = [], scrollInterval = False, isActive = False,
                  config = \<lparr> maxTweets = None, dateRange = None, scrapeAll = True \<rparr>,
                  events = [] \<rparr>"

section \<open>Properties of the accumulated tweets\<close>

text \<open>No two tweets with the same identifier, and no two with the same text.\<close>

definition uniqueTweets :: "ScrapedTweet list \<Rightarrow> bool" where
  "uniqueTweets tweets = (distinct (map uniqueId tweets) \<and> distinct (map text' tweets))"

text \<open>A tweet whose timestamp is present and readable as a date lies between \<open>s\<close> and \<open>e\<close>.\<close>

definition withinRange :: "(string \<Rightarrow> Date) \<Rightarrow> int \<Rightarrow> int \<Rightarrow> ScrapedTweet \<Rightarrow> bool" where
  "withinRange newDate s e t =
     (case timestamp t of
        None \<Rightarrow> True
      | Some ts \<Rightarrow> ts = [] \<or> (case newDate ts of None \<Rightarrow> True | Some x \<Rightarrow> s \<le> x \<and> x \<le> e))"

section \<open>Example pages\<close>

text \<open>A date constructor for the examples: it reads the days listed, as milliseconds
  since 1970, and makes every other string an Invalid Date.\<close>

definition calendarDate :: "string \<Rightarrow> Date" where
  "calendarDate = map_of
     [(''2023-12-01'', 1701388800000), (''2024-01-01'', 1704067200000),
      (''2024-01-15'', 1705276800000), (''2024-01-31'', 1706659200000),
      (''2024-03-10'', 1710028800000)]"

text \<open>A tweet node with a text, a time, an author and no links or media.\<close>

definition tweetNode :: "string \<Rightarrow> string \<Rightarrow> string \<Rightarrow> bool \<Rightarrow> Element" where
  "tweetNode txt dt usr connector =
     \<lparr> tweetTextContent = Some txt, datetime = Some dt, userName = Some usr,
       quotedHref = None, photoHrefs = [], videoHrefs = [], mediaSources = [],
       hasThreadConnector = connector, hasPreviousThreadConnector = False \<rparr>"

definition plainTweet :: "string \<Rightarrow> string \<Rightarrow> string \<Rightarrow> ScrapedTweet" where
  "plainTweet txt dt usr =
     \<lparr> text' = txt, timestamp = Some dt, author = Some usr, isThread = None,
       threadTweets = None, threadPosition = None, quotedTweetUrl = None, mediaUrls = None \<rparr>"

text \<open>Three connected tweets of one author, then a tweet of another author.\<close>

definition threadPage :: "Element list" where
  "threadPage =
     [tweetNode ''first part'' ''2024-01-15'' ''ann'' False,
      tweetNode ''second part'' ''2024-01-15'' ''ann'' True,
      tweetNode ''third part'' ''2024-01-15'' ''ann'' True,
      tweetNode ''another post'' ''2024-03-10'' ''bob'' False]"

text \<open>A tweet of March 2024 and a tweet whose time is missing.\<close>

definition marchPage :: "Element list" where
  "marchPage =
     [tweetNode ''a post from march'' ''2024-03-10'' ''ann'' False,
      tweetNode ''a post without a time'' [] ''bob'' False]"

text \<open>A tweet of January 2024.\<close>

definition januaryPage :: "Element list" where
  "januaryPage = [tweetNode ''a post from january'' ''2024-01-15'' ''ann'' False]"

text \<open>Three tweets of December 2023.\<close>

definition decemberPage :: "Element list" where
  "decemberPage =
     [tweetNode ''december one'' ''2023-12-01'' ''ann'' False,
      tweetNode ''december two'' ''2023-12-01'' ''bob'' False,
      tweetNode ''december three'' ''2023-12-01'' ''cat'' False]"

text \<open>The popup's configuration for January 2024, and for two tweets.\<close>

definition januaryConfig :: ScrapingConfig where
  "januaryConfig = popupConfig ModeDate None ''2024-01-01'' ''2024-01-31''"

definition twoTweetsConfig :: ScrapingConfig where
  "twoTweetsConfig = popupConfig ModeCount (Some 2) [] []"

definition allConfig :: ScrapingConfig where
  "allConfig = popupConfig ModeAll None [] []"

text \<open>A wait during which no stop is requested and after which the page is \<open>page\<close>.\<close>

definition quietTick :: "Element list \<Rightarrow> Tick" where
  "quietTick page = \<lparr> stopRequested = False, rendered = page \<rparr>"

text \<open>Two texts that agree on their first fifty characters.\<close>

definition longTextA :: string where
  "longTextA = ''0123456789012345678901234567890123456789012345678901234 first''"

definition longTextB :: string where
  "longTextB = ''0123456789012345678901234567890123456789012345678901234 second''"

section \<open>Thread reconstruction: the loop and the groups\<close>

declare scrapeAndScroll.simps [simp del]
declare seekLoop.simps [simp del]
declare showNat.simps [simp del]

lemma extractTweetData_noThread:
  "extractTweetData e = Some t \<Longrightarrow> isThread t = None \<and> threadTweets t = None \<and> threadPosition t = None"
  by (auto simp: extractTweetData_def Let_def split: option.splits if_splits)

lemma length_finalizeThread: "length (finalizeThread g) = length g"
  by (simp add: finalizeThread_def)

lemma nth_finalizeThread:
  "i < length g \<Longrightarrow> finalizeThread g ! i =
     (g ! i)\<lparr> isThread := Some True, threadTweets := Some (map text' g), threadPosition := Some (i + 1) \<rparr>"
  by (simp add: finalizeThread_def)

lemma withoutThreadFields_finalizeThread:
  "map withoutThreadFields (finalizeThread g) = map withoutThreadFields g"
  by (rule nth_equalityI) (simp_all add: length_finalizeThread nth_finalizeThread withoutThreadFields_def)

lemma pushThread_single: "pushThread [t] = [t]"
  by (simp add: pushThread_def)

lemma pushThread_many: "length g > 1 \<Longrightarrow> pushThread g = finalizeThread g"
  by (simp add: pushThread_def)

lemma length_pushThread: "length (pushThread g) = length g"
  by (cases g) (auto simp: pushThread_def length_finalizeThread)

lemma withoutThreadFields_pushThread:
  "map withoutThreadFields (pushThread g) = map withoutThreadFields g"
  by (cases g) (auto simp: pushThread_def withoutThreadFields_finalizeThread)

lemma loopGroups_step:
  assumes "loopGroups l gs"
  shows "loopGroups (threadStep l e) (groupStep gs e)"
proof (cases "extractTweetData e")
  case None
  then show ?thesis using assms by (simp add: threadStep_def groupStep_def)
next
  case (Some t)
  show ?thesis
  proof (cases "gs = []")
    case True
    then show ?thesis using assms Some
      by (simp add: threadStep_def groupStep_def loopGroups_def pushThread_def)
  next
    case False
    then obtain hs g where gs: "gs = hs @ [g]"
      by (metis rev_exhaust)
    with assms have g: "g \<noteq> []"
      by (auto simp: loopGroups_def)
    show ?thesis
      using assms Some g unfolding gs
      by (auto simp: threadStep_def groupStep_def loopGroups_def butlast_append)
  qed
qed

lemma loopGroups_foldl:
  "loopGroups l gs \<Longrightarrow> loopGroups (foldl threadStep l es) (foldl groupStep gs es)"
  by (induction es arbitrary: l gs) (simp_all add: loopGroups_step)

lemma loopGroups_init:
  "loopGroups \<lparr> processedTweets = [], currentThread = [], lastAuthor = [] \<rparr> []"
  by (simp add: loopGroups_def)

lemma processTweetsForThreads_groups:
  "processTweetsForThreads es = concat (map pushThread (threadGroups es))"
proof -
  let ?l = "foldl threadStep \<lparr> processedTweets = [], currentThread = [], lastAuthor = [] \<rparr> es"
  have r: "loopGroups ?l (threadGroups es)"
    unfolding threadGroups_def by (rule loopGroups_foldl [OF loopGroups_init])
  show ?thesis
  proof (cases "threadGroups es = []")
    case True
    with r show ?thesis
      by (simp add: processTweetsForThreads_def loopGroups_def pushThread_def)
  next
    case False
    then obtain hs g where "threadGroups es = hs @ [g]"
      by (metis rev_exhaust)
    with r show ?thesis
      by (simp add: processTweetsForThreads_def loopGroups_def)
  qed
qed

lemma concat_groupStep:
  "[] \<notin> set gs \<Longrightarrow> concat (groupStep gs e) = concat gs @ (case extractTweetData e of None \<Rightarrow> [] | Some t \<Rightarrow> [t])"
proof (cases "gs = []")
  case True
  then show ?thesis by (simp add: groupStep_def split: option.splits)
next
  case False
  then obtain hs g where "gs = hs @ [g]"
    by (metis rev_exhaust)
  then show ?thesis by (simp add: groupStep_def split: option.splits)
qed

lemma groupStep_nonempty: "[] \<notin> set gs \<Longrightarrow> [] \<notin> set (groupStep gs e)"
proof (cases "gs = []")
  case True
  then show ?thesis by (simp add: groupStep_def split: option.splits)
next
  case False
  then obtain hs g where "gs = hs @ [g]"
    by (metis rev_exhaust)
  then show "[] \<notin> set gs \<Longrightarrow> ?thesis" by (auto simp add: groupStep_def split: option.splits)
qed

lemma foldl_groupStep:
  "[] \<notin> set gs \<Longrightarrow> [] \<notin> set (foldl groupStep gs es)
     \<and> concat (foldl groupStep gs es) = concat gs @ List.map_filter extractTweetData es"
proof (induction es arbitrary: gs)
  case Nil
  then show ?case by (simp add: List.map_filter_simps)
next
  case (Cons e es)
  from Cons.prems have n: "[] \<notin> set (groupStep gs e)" by (rule groupStep_nonempty)
  from Cons.IH [OF n] Cons.prems show ?case
    by (simp add: concat_groupStep List.map_filter_simps split: option.splits)
qed

lemma threadGroups_nonempty: "[] \<notin> set (threadGroups es)"
  using foldl_groupStep [of "[]" es] by (simp add: threadGroups_def)

lemma concat_threadGroups: "concat (threadGroups es) = List.map_filter extractTweetData es"
  using foldl_groupStep [of "[]" es] by (simp add: threadGroups_def)

lemma in_set_map_filter:
  "t \<in> set (List.map_filter f xs) \<longleftrightarrow> (\<exists>x\<in>set xs. f x = Some t)"
  by (induction xs) (auto simp: List.map_filter_simps split: option.splits)

lemma map_filter_extract_noThread:
  "t \<in> set (List.map_filter extractTweetData es) \<Longrightarrow> withoutThreadFields t = t"
  by (auto simp: in_set_map_filter withoutThreadFields_def dest!: extractTweetData_noThread)

text \<open>
  C9. The output of \<open>processTweetsForThreads\<close> is, up to the thread fields, exactly the
  list of the non-null results of \<open>extractTweetData\<close> on the nodes, in the order of the
  nodes: no record is dropped, duplicated or moved, and only the three thread fields of a
  record change.
\<close>

theorem reconstruction_preserves_records:
  "map withoutThreadFields (processTweetsForThreads es) = List.map_filter extractTweetData es"
proof -
  have "map withoutThreadFields (processTweetsForThreads es)
        = concat (map (map withoutThreadFields \<circ> pushThread) (threadGroups es))"
    by (simp add: processTweetsForThreads_groups map_concat)
  also have "\<dots> = concat (map (map withoutThreadFields) (threadGroups es))"
    by (simp add: comp_def withoutThreadFields_pushThread)
  also have "\<dots> = map withoutThreadFields (concat (threadGroups es))"
    by (simp add: map_concat)
  also have "\<dots> = map withoutThreadFields (List.map_filter extractTweetData es)"
    by (simp add: concat_threadGroups)
  also have "\<dots> = List.map_filter extractTweetData es"
    by (rule map_idI) (rule map_filter_extract_noThread)
  finally show ?thesis .
qed

text \<open>
  C4. The output is the groups of the scan, each pushed in order, and the groups split
  the extracted records in order. An output item has \<open>isThread = true\<close> iff its group has
  at least two members; then it is the member with \<open>threadTweets\<close> set to the texts of all
  members of the group in order and \<open>threadPosition\<close> set to its rank, counted from 1.
  The item of a group of one member is that member, with no thread field.
\<close>

theorem thread_consistency:
  "processTweetsForThreads es = concat (map pushThread (threadGroups es))
   \<and> concat (threadGroups es) = List.map_filter extractTweetData es
   \<and> (\<forall>g\<in>set (threadGroups es). g \<noteq> [] \<and> length (pushThread g) = length g \<and>
        (\<forall>i<length g.
           (isThread (pushThread g ! i) = Some True \<longleftrightarrow> 2 \<le> length g)
           \<and> (2 \<le> length g \<longrightarrow>
                pushThread g ! i = (g ! i)\<lparr> isThread := Some True,
                                             threadTweets := Some (map text' g),
                                             threadPosition := Some (i + 1) \<rparr>)
           \<and> (length g < 2 \<longrightarrow>
                pushThread g ! i = g ! i \<and> isThread (g ! i) = None
                \<and> threadTweets (g ! i) = None \<and> threadPosition (g ! i) = None)))"
proof (intro conjI ballI allI impI)
  show "processTweetsForThreads es = concat (map pushThread (threadGroups es))"
    by (rule processTweetsForThreads_groups)
  show "concat (threadGroups es) = List.map_filter extractTweetData es"
    by (rule concat_threadGroups)
next
  fix g assume g: "g \<in> set (threadGroups es)"
  then show ne: "g \<noteq> []"
    using threadGroups_nonempty [of es] by auto
  show "length (pushThread g) = length g"
    by (rule length_pushThread)
  fix i assume i: "i < length g"
  have "g ! i \<in> set (concat (threadGroups es))"
    using g i by (auto intro!: bexI [where x = g])
  then obtain e where "extractTweetData e = Some (g ! i)"
    by (auto simp: concat_threadGroups in_set_map_filter)
  then have plain: "isThread (g ! i) = None \<and> threadTweets (g ! i) = None \<and> threadPosition (g ! i) = None"
    by (rule extractTweetData_noThread)
  have single: "pushThread g ! i = g ! i" if "length g < 2"
  proof -
    from that ne obtain t where "g = [t]"
      by (cases g) auto
    with i show ?thesis by (simp add: pushThread_single)
  qed
  show "isThread (pushThread g ! i) = Some True \<longleftrightarrow> 2 \<le> length g"
  proof (cases "2 \<le> length g")
    case True
    with i show ?thesis by (simp add: pushThread_many nth_finalizeThread)
  next
    case False
    with single plain show ?thesis by simp
  qed
  show "pushThread g ! i = (g ! i)\<lparr> isThread := Some True, threadTweets := Some (map text' g),
                                      threadPosition := Some (i + 1) \<rparr>" if "2 \<le> length g"
    using that i by (simp add: pushThread_many nth_finalizeThread)
  show "pushThread g ! i = g ! i" if "length g < 2"
    using that by (rule single)
  show "isThread (g ! i) = None" "threadTweets (g ! i) = None" "threadPosition (g ! i) = None"
    using plain by simp_all
qed

theorem thread_consistency_witness:
  "[plainTweet ''first part'' ''2024-01-15'' ''ann'',
    plainTweet ''second part'' ''2024-01-15'' ''ann'',
    plainTweet ''third part'' ''2024-01-15'' ''ann''] \<in> set (threadGroups threadPage)
   \<and> [plainTweet ''another post'' ''2024-03-10'' ''bob''] \<in> set (threadGroups threadPage)
   \<and> pushThread [plainTweet ''first part'' ''2024-01-15'' ''ann'',
                  plainTweet ''second part'' ''2024-01-15'' ''ann'',
                  plainTweet ''third part'' ''2024-01-15'' ''ann''] ! 1
      = (plainTweet ''second part'' ''2024-01-15'' ''ann'')
          \<lparr> isThread := Some True,
            threadTweets := Some [''first part'', ''second part'', ''third part''],
            threadPosition := Some 2 \<rparr>
   \<and> pushThread [plainTweet ''another post'' ''2024-03-10'' ''bob''] ! 0
      = plainTweet ''another post'' ''2024-03-10'' ''bob''"
proof -
  let ?g = "[plainTweet ''first part'' ''2024-01-15'' ''ann'',
             plainTweet ''second part'' ''2024-01-15'' ''ann'',
             plainTweet ''third part'' ''2024-01-15'' ''ann'']"
  let ?h = "[plainTweet ''another post'' ''2024-03-10'' ''bob'']"
  have gs: "threadGroups threadPage = [?g, ?h]"
    by code_simp
  then have g: "?g \<in> set (threadGroups threadPage)" and h: "?h \<in> set (threadGroups threadPage)"
    by simp_all
  have all: "\<forall>g\<in>set (threadGroups threadPage). g \<noteq> [] \<and> length (pushThread g) = length g \<and>
        (\<forall>i<length g.
           (isThread (pushThread g ! i) = Some True \<longleftrightarrow> 2 \<le> length g)
           \<and> (2 \<le> length g \<longrightarrow>
                pushThread g ! i = (g ! i)\<lparr> isThread := Some True,
                                             threadTweets := Some (map text' g),
                                             threadPosition := Some (i + 1) \<rparr>)
           \<and> (length g < 2 \<longrightarrow>
                pushThread g ! i = g ! i \<and> isThread (g ! i) = None
                \<and> threadTweets (g ! i) = None \<and> threadPosition (g ! i) = None))"
    using thread_consistency [of threadPage] by blast
  from all g have "pushThread ?g ! 1 = (?g ! 1)\<lparr> isThread := Some True,
      threadTweets := Some (map text' ?g), threadPosition := Some (1 + 1) \<rparr>"
    by (elim ballE [where x = "?g"]) simp_all
  moreover from all h have "pushThread ?h ! 0 = ?h ! 0"
    by (elim ballE [where x = "?h"]) simp_all
  ultimately show ?thesis
    using g h by (simp add: plainTweet_def)
qed

section \<open>The collection cycle: helper facts\<close>

lemma alreadyExists_iff:
  "alreadyExists acc p \<longleftrightarrow> (\<exists>t\<in>set acc. uniqueId t = uniqueId p \<or> text' t = text' p)"
  by (simp add: alreadyExists_def list_ex_iff)

lemma scrapeOne_cases:
  "scrapeOne P cfg acc p = acc
   \<or> (scrapeOne P cfg acc p = acc @ [p] \<and> \<not> limitReached cfg acc
      \<and> \<not> outsideDateRange P cfg p \<and> \<not> alreadyExists acc p)"
  by (simp add: scrapeOne_def)

lemma limit_or_below: "limitReached cfg acc \<or> belowLimit cfg acc"
  by (auto simp: limitReached_def belowLimit_def split: option.splits)

lemma scrapeOne_append:
  "\<not> limitReached cfg acc \<Longrightarrow> \<not> outsideDateRange P cfg p \<Longrightarrow> \<not> alreadyExists acc p
   \<Longrightarrow> scrapeOne P cfg acc p = acc @ [p]"
  using limit_or_below [of cfg acc] by (simp add: scrapeOne_def)

lemma scrapeOne_exists: "alreadyExists acc p \<Longrightarrow> scrapeOne P cfg acc p = acc"
  by (simp add: scrapeOne_def)

lemma scrapeOne_limit: "limitReached cfg acc \<Longrightarrow> scrapeOne P cfg acc p = acc"
  by (simp add: scrapeOne_def)

lemma uniqueTweets_scrapeOne:
  "uniqueTweets acc \<Longrightarrow> uniqueTweets (scrapeOne P cfg acc p)"
proof -
  consider "scrapeOne P cfg acc p = acc"
    | "scrapeOne P cfg acc p = acc @ [p]" "\<not> alreadyExists acc p"
    using scrapeOne_cases [of P cfg acc p] by blast
  then show "uniqueTweets acc \<Longrightarrow> ?thesis"
  proof cases
    case 1
    then show "uniqueTweets acc \<Longrightarrow> ?thesis" by simp
  next
    case 2
    from 2(2) have "uniqueId p \<notin> uniqueId ` set acc" and "text' p \<notin> text' ` set acc"
      by (force simp: alreadyExists_iff)+
    then show "uniqueTweets acc \<Longrightarrow> ?thesis"
      by (simp add: 2(1) uniqueTweets_def)
  qed
qed

lemma uniqueTweets_foldl:
  "uniqueTweets acc \<Longrightarrow> uniqueTweets (foldl (scrapeOne P cfg) acc ps)"
  by (induction ps arbitrary: acc) (simp_all add: uniqueTweets_scrapeOne)

lemma foldl_limit:
  "limitReached cfg acc \<Longrightarrow> foldl (scrapeOne P cfg) acc ps = acc"
  by (induction ps) (simp_all add: scrapeOne_limit)

lemma length_scrapeOne:
  "maxTweets cfg = Some N \<Longrightarrow> 0 < N \<Longrightarrow> int (length acc) \<le> N
   \<Longrightarrow> int (length (scrapeOne P cfg acc p)) \<le> N"
  using scrapeOne_cases [of P cfg acc p]
  by (auto simp: limitReached_def)

lemma length_foldl:
  "maxTweets cfg = Some N \<Longrightarrow> 0 < N \<Longrightarrow> int (length acc) \<le> N
   \<Longrightarrow> int (length (foldl (scrapeOne P cfg) acc ps)) \<le> N"
  by (induction ps arbitrary: acc) (simp_all add: length_scrapeOne)

lemma limitReached_append: "limitReached cfg acc \<Longrightarrow> limitReached cfg (acc @ zs)"
  by (auto simp: limitReached_def split: option.splits)

lemma alreadyExists_append: "alreadyExists acc p \<Longrightarrow> alreadyExists (acc @ zs) p"
  by (auto simp: alreadyExists_iff)

lemma scrapeOne_rejected_later:
  "scrapeOne P cfg acc p = acc \<Longrightarrow> scrapeOne P cfg (acc @ zs) p = acc @ zs"
  using limit_or_below [of cfg acc]
  by (auto simp: scrapeOne_def limitReached_append alreadyExists_append split: if_splits)

lemma scrapeOne_member: "p \<in> set acc \<Longrightarrow> scrapeOne P cfg acc p = acc"
  by (auto simp: scrapeOne_def alreadyExists_iff)

lemma scrapeOne_twice:
  "scrapeOne P cfg (scrapeOne P cfg acc p @ zs) p = scrapeOne P cfg acc p @ zs"
  using scrapeOne_cases [of P cfg acc p]
  by (auto simp: scrapeOne_rejected_later scrapeOne_member)

lemma foldl_scrapeOne_prefix: "\<exists>zs. foldl (scrapeOne P cfg) acc ps = acc @ zs"
proof (induction ps arbitrary: acc)
  case Nil
  then show ?case by simp
next
  case (Cons p ps)
  from Cons.IH [of "scrapeOne P cfg acc p"] scrapeOne_cases [of P cfg acc p]
  show ?case by auto
qed

lemma foldl_scrapeOne_rejects:
  "p \<in> set ps \<Longrightarrow>
   scrapeOne P cfg (foldl (scrapeOne P cfg) acc ps @ zs) p = foldl (scrapeOne P cfg) acc ps @ zs"
proof (induction ps arbitrary: acc)
  case Nil
  then show ?case by simp
next
  case (Cons q qs)
  show ?case
  proof (cases "p \<in> set qs")
    case True
    then show ?thesis using Cons.IH by simp
  next
    case False
    with Cons.prems have pq: "p = q" by simp
    obtain ys where ys: "foldl (scrapeOne P cfg) (scrapeOne P cfg acc q) qs = scrapeOne P cfg acc q @ ys"
      using foldl_scrapeOne_prefix by blast
    show ?thesis
      using scrapeOne_twice [of P cfg acc q "ys @ zs"] by (simp add: pq ys)
  qed
qed

lemma foldl_scrapeOne_fixed:
  "(\<And>p. p \<in> set ps \<Longrightarrow> scrapeOne P cfg acc p = acc) \<Longrightarrow> foldl (scrapeOne P cfg) acc ps = acc"
  by (induction ps) simp_all

lemma foldl_scrapeOne_idem:
  "foldl (scrapeOne P cfg) (foldl (scrapeOne P cfg) acc ps) ps = foldl (scrapeOne P cfg) acc ps"
  using foldl_scrapeOne_rejects [of _ ps P cfg acc "[]"]
  by (intro foldl_scrapeOne_fixed) simp

lemma not_outside_withinRange:
  "dateRange cfg = Some r \<Longrightarrow> P (start r) = Some s \<Longrightarrow> P (end' r) = Some e
   \<Longrightarrow> \<not> outsideDateRange P cfg p \<Longrightarrow> withinRange P s e p"
  by (auto simp: outsideDateRange_def withinRange_def truthyStr_def orEmpty_def dateLt_def
      dateGt_def Let_def split: option.splits)

lemma withinRange_scrapeOne:
  assumes "dateRange cfg = Some r" and "P (start r) = Some s" and "P (end' r) = Some e"
    and "\<forall>t\<in>set acc. withinRange P s e t"
  shows "\<forall>t\<in>set (scrapeOne P cfg acc p). withinRange P s e t"
  using scrapeOne_cases [of P cfg acc p] assms
  by (auto dest: not_outside_withinRange)

lemma no_timestamp_not_outside:
  "\<not> truthyStr (timestamp p) \<or> P (orEmpty (timestamp p)) = None \<Longrightarrow> \<not> outsideDateRange P cfg p"
  by (auto simp: outsideDateRange_def dateLt_def dateGt_def Let_def split: option.splits)

section \<open>The controller: helper facts\<close>

lemma allTweets_effects [simp]:
  "allTweets (sendStatusUpdate m st) = allTweets st"
  "allTweets (sendScrapingComplete st) = allTweets st"
  "allTweets (stopScraping st) = allTweets st"
  "allTweets (scrollDown st) = allTweets st"
  "allTweets (wait n st) = allTweets st"
  "allTweets (deliver t st) = allTweets st"
  by (simp_all add: sendStatusUpdate_def sendScrapingComplete_def stopScraping_def
      scrollDown_def wait_def deliver_def)

lemma config_effects [simp]:
  "config (sendStatusUpdate m st) = config st"
  "config (sendScrapingComplete st) = config st"
  "config (stopScraping st) = config st"
  "config (scrollDown st) = config st"
  "config (wait n st) = config st"
  "config (deliver t st) = config st"
  by (simp_all add: sendStatusUpdate_def sendScrapingComplete_def stopScraping_def
      scrollDown_def wait_def deliver_def)

lemma isActive_effects [simp]:
  "isActive (sendStatusUpdate m st) = isActive st"
  "isActive (sendScrapingComplete st) = isActive st"
  "isActive (stopScraping st) = False"
  "isActive (scrollDown st) = isActive st"
  "isActive (wait n st) = isActive st"
  "isActive (deliver t st) = (isActive st \<and> \<not> stopRequested t)"
  by (simp_all add: sendStatusUpdate_def sendScrapingComplete_def stopScraping_def
      scrollDown_def wait_def deliver_def)

lemma allTweets_scrapeTweets:
  "allTweets (scrapeTweets P st es)
   = foldl (scrapeOne P (config st)) (allTweets st) (processTweetsForThreads es)"
  by (simp add: scrapeTweets_def Let_def sendStatusUpdate_def)

lemma config_scrapeTweets [simp]: "config (scrapeTweets P st es) = config st"
  by (simp add: scrapeTweets_def Let_def sendStatusUpdate_def)

lemma isActive_scrapeTweets [simp]: "isActive (scrapeTweets P st es) = isActive st"
  by (simp add: scrapeTweets_def Let_def sendStatusUpdate_def)

lemma foldl_invariant:
  "(\<And>acc p. Q acc \<Longrightarrow> Q (f acc p)) \<Longrightarrow> Q acc \<Longrightarrow> Q (foldl f acc ps)"
  by (induction ps arbitrary: acc) simp_all

lemma scrapeTweets_invariant:
  assumes "\<And>acc p. Q acc \<Longrightarrow> Q (scrapeOne P (config st) acc p)" and "Q (allTweets st)"
  shows "Q (allTweets (scrapeTweets P st es))"
  unfolding allTweets_scrapeTweets using assms by (rule foldl_invariant)

lemma scrapeAndScroll_invariant:
  assumes step: "\<And>acc p. Q acc \<Longrightarrow> Q (scrapeOne P cfg acc p)"
  shows "config st = cfg \<Longrightarrow> Q (allTweets st)
         \<Longrightarrow> config (scrapeAndScroll P st page ticks) = cfg
             \<and> Q (allTweets (scrapeAndScroll P st page ticks))"
proof (induction ticks arbitrary: st page)
  case Nil
  have "Q (allTweets (scrapeTweets P st page))"
    by (rule scrapeTweets_invariant [where Q = Q]) (simp_all add: step Nil)
  with Nil show ?case
    by (simp add: scrapeAndScroll.simps [of P st page "[]"] Let_def)
next
  case (Cons t ts)
  have q: "Q (allTweets (scrapeTweets P st page))"
    by (rule scrapeTweets_invariant [where Q = Q]) (simp_all add: step Cons.prems)
  let ?st2 = "wait 3000 ((scrollDown (scrapeTweets P st page))\<lparr> scrollInterval := True \<rparr>)"
  have "config ?st2 = cfg" and "Q (allTweets ?st2)"
    using q Cons.prems by (simp_all add: wait_def scrollDown_def)
  from Cons.IH [OF this] q Cons.prems show ?case
    by (simp add: scrapeAndScroll.simps [of P st page "t # ts"] Let_def)
qed

lemma seekLoop_exit:
  "\<not> (attempts < 50 \<and> isActive st) \<Longrightarrow>
   seekLoop P s e st attempts page ticks
   = (if attempts \<ge> 50
      then scrapeAndScroll P (sendStatusUpdate ''Starting scraping from current position'' st) page ticks
      else st)"
  by (subst seekLoop.simps) simp

lemma seekLoop_step:
  assumes "attempts < 50" and "isActive st"
  shows "seekLoop P s e st attempts page ticks
           = scrapeAndScroll P (sendStatusUpdate ''Found tweets in range, scraping...'' st) page ticks
         \<or> seekLoop P s e st attempts page ticks
           = stopScraping (sendStatusUpdate ''No tweets found in date range'' st)
         \<or> (ticks = [] \<and> seekLoop P s e st attempts page ticks = wait 2000 (scrollDown st))
         \<or> (\<exists>t ts. ticks = t # ts \<and> seekLoop P s e st attempts page ticks
               = seekLoop P s e (deliver t (wait 2000 (scrollDown st))) (attempts + 1) (rendered t) ts)
         \<or> seekLoop P s e st attempts page ticks = seekLoop P s e st (attempts + 1) page ticks"
proof (cases ticks)
  case Nil
  show ?thesis
    by (subst (1 2 3 4) seekLoop.simps [of P s e st attempts]) (simp add: assms Nil Let_def)
next
  case (Cons t ts)
  show ?thesis
    by (subst (1 2 3 4) seekLoop.simps [of P s e st attempts]) (simp add: assms Cons Let_def)
qed

lemma seekLoop_invariant:
  assumes step: "\<And>acc p. Q acc \<Longrightarrow> Q (scrapeOne P cfg acc p)"
  shows "config st = cfg \<Longrightarrow> Q (allTweets st)
         \<Longrightarrow> config (seekLoop P s e st attempts page ticks) = cfg
             \<and> Q (allTweets (seekLoop P s e st attempts page ticks))"
proof (induction "50 - attempts" arbitrary: st attempts page ticks)
  case 0
  note run = scrapeAndScroll_invariant [where Q = Q and P = P and cfg = cfg, OF step]
  from 0 show ?case
    by (simp add: seekLoop_exit run)
next
  case (Suc n)
  note run = scrapeAndScroll_invariant [where Q = Q and P = P and cfg = cfg, OF step]
  show ?case
  proof (cases "isActive st")
    case False
    from Suc.hyps(2) have "\<not> attempts \<ge> 50" by simp
    with False Suc.prems show ?thesis
      by (simp add: seekLoop_exit)
  next
    case True
    from Suc.hyps(2) have a: "attempts < 50" and n: "n = 50 - (attempts + 1)"
      by simp_all
    from Suc.prems have w: "config (deliver t (wait 2000 (scrollDown st))) = cfg"
      "Q (allTweets (deliver t (wait 2000 (scrollDown st))))" for t
      by simp_all
    from seekLoop_step [OF a True, of P s e page ticks] show ?thesis
      using Suc.prems Suc.hyps(1) [OF n w] Suc.hyps(1) [OF n Suc.prems]
      by (elim disjE exE conjE) (simp_all add: run)
  qed
qed

lemma scrollToDateRange_invariant:
  assumes step: "\<And>acc p. Q acc \<Longrightarrow> Q (scrapeOne P cfg acc p)"
  shows "config st = cfg \<Longrightarrow> Q (allTweets st)
         \<Longrightarrow> config (scrollToDateRange P st page ticks) = cfg
             \<and> Q (allTweets (scrollToDateRange P st page ticks))"
  using seekLoop_invariant [where Q = Q and P = P and cfg = cfg, OF step]
  by (simp add: scrollToDateRange_def split: option.splits)

lemma startScraping_invariant:
  assumes step: "\<And>acc p. Q acc \<Longrightarrow> Q (scrapeOne P cfg acc p)" and "Q []" and "\<not> isActive st"
  shows "config (startScraping P cfg st page ticks) = cfg
         \<and> Q (allTweets (startScraping P cfg st page ticks))"
  using assms(2,3)
    scrollToDateRange_invariant [where Q = Q and P = P and cfg = cfg, OF step]
    scrapeAndScroll_invariant [where Q = Q and P = P and cfg = cfg, OF step]
  by (simp add: startScraping_def Let_def)

lemma run_unique:
  assumes "\<not> isActive st"
  shows "uniqueTweets (allTweets (startScraping P cfg st page ticks))"
proof -
  have "uniqueTweets []"
    by (simp add: uniqueTweets_def)
  from startScraping_invariant [where Q = uniqueTweets, OF uniqueTweets_scrapeOne this assms]
  show ?thesis by simp
qed

lemma uniqueId_cong:
  "take 50 (text' a) = take 50 (text' b) \<Longrightarrow> timestamp a = timestamp b \<Longrightarrow> uniqueId a = uniqueId b"
  by (simp add: uniqueId_def)

section \<open>The accumulated result\<close>

text \<open>
  C1. A collection cycle keeps the accumulated tweets free of repeated identifiers
  (the first 50 characters of the text, an underscore and the timestamp) and of repeated
  texts; so they are after every cycle of a run, which starts from no tweets. A candidate
  whose identifier or text is that of a retained tweet is not appended.
\<close>

theorem accumulated_unique:
  "(uniqueTweets (allTweets st) \<longrightarrow> uniqueTweets (allTweets (scrapeTweets P st es)))
   \<and> (\<not> isActive st' \<longrightarrow> uniqueTweets (allTweets (startScraping P cfg st' page ticks)))
   \<and> ((\<exists>t\<in>set acc. uniqueId t = uniqueId p \<or> text' t = text' p)
        \<longrightarrow> scrapeOne P cfg acc p = acc)"
  by (simp add: allTweets_scrapeTweets uniqueTweets_foldl run_unique scrapeOne_exists
      alreadyExists_iff)

theorem accumulated_unique_witness:
  "uniqueTweets (allTweets (newScraper\<lparr> allTweets := [plainTweet ''a post from march'' ''2024-03-10'' ''ann''] \<rparr>))
   \<and> allTweets (scrapeTweets calendarDate
        (newScraper\<lparr> allTweets := [plainTweet ''a post from march'' ''2024-03-10'' ''ann''] \<rparr>) marchPage)
      = [plainTweet ''a post from march'' ''2024-03-10'' ''ann'',
         plainTweet ''a post without a time'' [] ''bob'']
   \<and> uniqueTweets (allTweets (scrapeTweets calendarDate
        (newScraper\<lparr> allTweets := [plainTweet ''a post from march'' ''2024-03-10'' ''ann''] \<rparr>) marchPage))
   \<and> \<not> isActive newScraper
   \<and> uniqueTweets (allTweets (startScraping calendarDate allConfig newScraper marchPage
        [quietTick marchPage]))
   \<and> text' (plainTweet ''a post from march'' ''2024-03-10'' ''ann'')
      = text' (plainTweet ''a post from march'' [] ''bob'')
   \<and> scrapeOne calendarDate allConfig [plainTweet ''a post from march'' ''2024-03-10'' ''ann'']
        (plainTweet ''a post from march'' [] ''bob'')
      = [plainTweet ''a post from march'' ''2024-03-10'' ''ann'']"
proof -
  let ?old = "plainTweet ''a post from march'' ''2024-03-10'' ''ann''"
  let ?new = "plainTweet ''a post from march'' [] ''bob''"
  let ?st = "newScraper\<lparr> allTweets := [?old] \<rparr>"
  have h1: "uniqueTweets (allTweets ?st)"
    by (simp add: uniqueTweets_def)
  have h2: "\<not> isActive newScraper"
    by (simp add: newScraper_def)
  have h3: "text' ?old = text' ?new"
    by (simp add: plainTweet_def)
  then have h4: "\<exists>t\<in>set [?old]. uniqueId t = uniqueId ?new \<or> text' t = text' ?new"
    by simp
  have v: "allTweets (scrapeTweets calendarDate ?st marchPage)
           = [?old, plainTweet ''a post without a time'' [] ''bob'']"
    by code_simp
  from accumulated_unique [where st = "?st" and P = calendarDate and es = marchPage
      and st' = newScraper and cfg = allConfig and page = marchPage
      and ticks = "[quietTick marchPage]" and acc = "[?old]" and p = "?new"] h1 h2 h4
  have "uniqueTweets (allTweets (scrapeTweets calendarDate ?st marchPage))"
    and "uniqueTweets (allTweets (startScraping calendarDate allConfig newScraper marchPage
          [quietTick marchPage]))"
    and "scrapeOne calendarDate allConfig [?old] ?new = [?old]"
    by blast+
  with h1 h2 h3 v show ?thesis by blast
qed

text \<open>
  C2. With \<open>maxTweets = N\<close>, \<open>N\<close> positive: a cycle that starts with at most \<open>N\<close> tweets ends
  with at most \<open>N\<close>; a cycle that starts with \<open>N\<close> tweets or more appends nothing; and
  a run, which starts from no tweets, never holds more than \<open>N\<close>.
\<close>

theorem count_cap:
  assumes "maxTweets cfg = Some N" and "0 < N"
  shows "(config st = cfg \<and> int (length (allTweets st)) \<le> N
            \<longrightarrow> int (length (allTweets (scrapeTweets P st es))) \<le> N)
         \<and> (config st = cfg \<and> N \<le> int (length (allTweets st))
            \<longrightarrow> allTweets (scrapeTweets P st es) = allTweets st)
         \<and> (\<not> isActive st' \<longrightarrow> int (length (allTweets (startScraping P cfg st' page ticks))) \<le> N)"
proof (intro conjI impI)
  assume "config st = cfg \<and> int (length (allTweets st)) \<le> N"
  with assms show "int (length (allTweets (scrapeTweets P st es))) \<le> N"
    by (simp add: allTweets_scrapeTweets length_foldl)
next
  assume "config st = cfg \<and> N \<le> int (length (allTweets st))"
  with assms have "limitReached (config st) (allTweets st)"
    by (simp add: limitReached_def)
  then show "allTweets (scrapeTweets P st es) = allTweets st"
    by (simp add: allTweets_scrapeTweets foldl_limit)
next
  assume idle: "\<not> isActive st'"
  have step: "int (length (scrapeOne P cfg acc p)) \<le> N" if "int (length acc) \<le> N" for acc p
    using assms that by (rule length_scrapeOne)
  have "int (length ([] :: ScrapedTweet list)) \<le> N"
    using assms by simp
  from startScraping_invariant [where Q = "\<lambda>acc. int (length acc) \<le> N", OF step this idle]
  show "int (length (allTweets (startScraping P cfg st' page ticks))) \<le> N"
    by simp
qed

theorem count_cap_witness:
  "maxTweets twoTweetsConfig = Some 2
   \<and> allTweets (scrapeTweets calendarDate (newScraper\<lparr> config := twoTweetsConfig \<rparr>) decemberPage)
      = [plainTweet ''december one'' ''2023-12-01'' ''ann'',
         plainTweet ''december two'' ''2023-12-01'' ''bob'']
   \<and> allTweets (scrapeTweets calendarDate
        (scrapeTweets calendarDate (newScraper\<lparr> config := twoTweetsConfig \<rparr>) decemberPage) marchPage)
      = allTweets (scrapeTweets calendarDate (newScraper\<lparr> config := twoTweetsConfig \<rparr>) decemberPage)
   \<and> int (length (allTweets (scrapeTweets calendarDate (newScraper\<lparr> config := twoTweetsConfig \<rparr>)
        decemberPage))) \<le> 2
   \<and> \<not> isActive newScraper
   \<and> int (length (allTweets (startScraping calendarDate twoTweetsConfig newScraper decemberPage
        [quietTick marchPage]))) \<le> 2"
proof -
  let ?st = "newScraper\<lparr> config := twoTweetsConfig \<rparr>"
  let ?st1 = "scrapeTweets calendarDate ?st decemberPage"
  have m: "maxTweets twoTweetsConfig = Some 2"
    by (simp add: twoTweetsConfig_def popupConfig_def)
  have a: "\<not> isActive newScraper"
    by (simp add: newScraper_def)
  have v: "allTweets ?st1 = [plainTweet ''december one'' ''2023-12-01'' ''ann'',
                             plainTweet ''december two'' ''2023-12-01'' ''bob'']"
    by code_simp
  then have full: "config ?st1 = twoTweetsConfig \<and> 2 \<le> int (length (allTweets ?st1))"
    by simp
  have "config ?st = twoTweetsConfig \<and> int (length (allTweets ?st)) \<le> 2"
    by (simp add: newScraper_def)
  with count_cap [OF m, where st = "?st" and P = calendarDate and es = decemberPage]
  have le: "int (length (allTweets ?st1)) \<le> 2"
    by simp
  from count_cap [OF m, where st = "?st1" and P = calendarDate and es = marchPage] full
  have "allTweets (scrapeTweets calendarDate ?st1 marchPage) = allTweets ?st1"
    by simp
  moreover from count_cap [OF m, where st' = newScraper and P = calendarDate
      and page = decemberPage and ticks = "[quietTick marchPage]"] a
  have "int (length (allTweets (startScraping calendarDate twoTweetsConfig newScraper decemberPage
          [quietTick marchPage]))) \<le> 2"
    by simp
  ultimately show ?thesis using m a v le by simp
qed

text \<open>
  C3. With a date range whose two ends read as dates \<open>s\<close> and \<open>e\<close>: a cycle keeps every
  accumulated tweet that has a timestamp readable as a date between \<open>s\<close> and \<open>e\<close>, and
  so does a run. A tweet whose timestamp is missing, empty or not readable as a date is
  never skipped by the date check, and is appended when the limit is not reached and it
  is not a duplicate.
\<close>

theorem date_filter:
  assumes "dateRange cfg = Some r" and "P (start r) = Some s" and "P (end' r) = Some e"
  shows "(config st = cfg \<and> (\<forall>t\<in>set (allTweets st). withinRange P s e t)
            \<longrightarrow> (\<forall>t\<in>set (allTweets (scrapeTweets P st es)). withinRange P s e t))
         \<and> (\<not> isActive st'
            \<longrightarrow> (\<forall>t\<in>set (allTweets (startScraping P cfg st' page ticks)). withinRange P s e t))
         \<and> (\<not> truthyStr (timestamp p) \<or> P (orEmpty (timestamp p)) = None
            \<longrightarrow> \<not> outsideDateRange P cfg p)
         \<and> ((\<not> truthyStr (timestamp p) \<or> P (orEmpty (timestamp p)) = None)
             \<and> \<not> limitReached cfg acc \<and> \<not> alreadyExists acc p
            \<longrightarrow> scrapeOne P cfg acc p = acc @ [p])"
proof (intro conjI impI)
  have step: "\<forall>t\<in>set (scrapeOne P cfg acc p). withinRange P s e t"
    if "\<forall>t\<in>set acc. withinRange P s e t" for acc p
    using assms that by (rule withinRange_scrapeOne)
  {
    assume "config st = cfg \<and> (\<forall>t\<in>set (allTweets st). withinRange P s e t)"
    then have c: "config st = cfg" and a: "\<forall>t\<in>set (allTweets st). withinRange P s e t"
      by simp_all
    from step a
    have "\<forall>t\<in>set (foldl (scrapeOne P cfg) (allTweets st) (processTweetsForThreads es)).
            withinRange P s e t"
      by (rule foldl_invariant [where Q = "\<lambda>acc. \<forall>t\<in>set acc. withinRange P s e t"])
    then show "\<forall>t\<in>set (allTweets (scrapeTweets P st es)). withinRange P s e t"
      by (simp add: allTweets_scrapeTweets c)
  }
  {
    assume idle: "\<not> isActive st'"
    have "\<forall>t\<in>set ([] :: ScrapedTweet list). withinRange P s e t"
      by simp
    from startScraping_invariant [where Q = "\<lambda>acc. \<forall>t\<in>set acc. withinRange P s e t",
        OF step this idle]
    show "\<forall>t\<in>set (allTweets (startScraping P cfg st' page ticks)). withinRange P s e t"
      by simp
  }
  {
    assume "\<not> truthyStr (timestamp p) \<or> P (orEmpty (timestamp p)) = None"
    then show "\<not> outsideDateRange P cfg p"
      by (rule no_timestamp_not_outside)
  }
  {
    assume "(\<not> truthyStr (timestamp p) \<or> P (orEmpty (timestamp p)) = None)
            \<and> \<not> limitReached cfg acc \<and> \<not> alreadyExists acc p"
    then have "\<not> limitReached cfg acc" and "\<not> outsideDateRange P cfg p"
      and "\<not> alreadyExists acc p"
      by (simp_all add: no_timestamp_not_outside)
    then show "scrapeOne P cfg acc p = acc @ [p]"
      by (rule scrapeOne_append)
  }
qed

theorem date_filter_witness:
  "dateRange januaryConfig = Some \<lparr> start = ''2024-01-01'', end' = ''2024-01-31'' \<rparr>
   \<and> calendarDate ''2024-01-01'' = Some 1704067200000
   \<and> calendarDate ''2024-01-31'' = Some 1706659200000
   \<and> allTweets (scrapeTweets calendarDate (newScraper\<lparr> config := januaryConfig \<rparr>)
        (decemberPage @ januaryPage @ marchPage))
      = [plainTweet ''a post from january'' ''2024-01-15'' ''ann'',
         plainTweet ''a post without a time'' [] ''bob'']
   \<and> withinRange calendarDate 1704067200000 1706659200000
        (plainTweet ''a post from january'' ''2024-01-15'' ''ann'')
   \<and> \<not> isActive newScraper
   \<and> allTweets (startScraping calendarDate januaryConfig newScraper (januaryPage @ marchPage) [])
      = [plainTweet ''a post from january'' ''2024-01-15'' ''ann'',
         plainTweet ''a post without a time'' [] ''bob'']
   \<and> list_all (withinRange calendarDate 1704067200000 1706659200000)
        (allTweets (startScraping calendarDate januaryConfig newScraper (januaryPage @ marchPage) []))
   \<and> \<not> outsideDateRange calendarDate januaryConfig (plainTweet ''a post without a time'' [] ''bob'')
   \<and> \<not> outsideDateRange calendarDate januaryConfig (plainTweet ''a strange time'' ''yesterday'' ''bob'')
   \<and> scrapeOne calendarDate januaryConfig [] (plainTweet ''a strange time'' ''yesterday'' ''bob'')
      = [plainTweet ''a strange time'' ''yesterday'' ''bob'']"
proof -
  let ?r = "\<lparr> start = ''2024-01-01'', end' = ''2024-01-31'' \<rparr>"
  let ?st = "newScraper\<lparr> config := januaryConfig \<rparr>"
  let ?jan = "plainTweet ''a post from january'' ''2024-01-15'' ''ann''"
  let ?undated = "plainTweet ''a post without a time'' [] ''bob''"
  let ?odd = "plainTweet ''a strange time'' ''yesterday'' ''bob''"
  have r: "dateRange januaryConfig = Some ?r"
    by (simp add: januaryConfig_def popupConfig_def)
  have s: "calendarDate (start ?r) = Some 1704067200000"
    by (simp add: calendarDate_def)
  have e: "calendarDate (end' ?r) = Some 1706659200000"
    by (simp add: calendarDate_def)
  note inst = date_filter [OF r s e, where st = "?st" and es = "decemberPage @ januaryPage @ marchPage"
      and st' = newScraper and page = "januaryPage @ marchPage" and ticks = "[]"]
  have h1: "config ?st = januaryConfig
            \<and> (\<forall>t\<in>set (allTweets ?st). withinRange calendarDate 1704067200000 1706659200000 t)"
    by (simp add: newScraper_def)
  have h2: "\<not> isActive newScraper"
    by (simp add: newScraper_def)
  have h3: "\<not> truthyStr (timestamp ?undated)"
    by (simp add: plainTweet_def truthyStr_def)
  have h4: "calendarDate (orEmpty (timestamp ?odd)) = None"
    by (simp add: plainTweet_def orEmpty_def calendarDate_def)
  have h5: "\<not> limitReached januaryConfig []" "\<not> alreadyExists [] ?odd"
    by (simp_all add: limitReached_def alreadyExists_def januaryConfig_def popupConfig_def)
  have v1: "allTweets (scrapeTweets calendarDate ?st (decemberPage @ januaryPage @ marchPage))
            = [?jan, ?undated]"
    by code_simp
  have v2: "allTweets (startScraping calendarDate januaryConfig newScraper (januaryPage @ marchPage) [])
            = [?jan, ?undated]"
    by code_simp
  from inst [where p = "?undated"] h1
  have "\<forall>t\<in>set (allTweets (scrapeTweets calendarDate ?st (decemberPage @ januaryPage @ marchPage))).
          withinRange calendarDate 1704067200000 1706659200000 t"
    by blast
  then have c1: "withinRange calendarDate 1704067200000 1706659200000 ?jan"
    by (simp add: v1)
  from inst [where p = "?undated"] h2
  have c5: "list_all (withinRange calendarDate 1704067200000 1706659200000)
              (allTweets (startScraping calendarDate januaryConfig newScraper (januaryPage @ marchPage) []))"
    unfolding list_all_iff by blast
  from inst [where p = "?undated"] h3 have c2: "\<not> outsideDateRange calendarDate januaryConfig ?undated"
    by blast
  from inst [where p = "?odd" and acc = "[]"] h4 h5
  have c3: "\<not> outsideDateRange calendarDate januaryConfig ?odd"
    and c4: "scrapeOne calendarDate januaryConfig [] ?odd = [] @ [?odd]"
    by blast+
  from r s e v1 h2 c1 c2 c3 c4 have "dateRange januaryConfig = Some ?r
      \<and> calendarDate ''2024-01-01'' = Some 1704067200000
      \<and> calendarDate ''2024-01-31'' = Some 1706659200000
      \<and> allTweets (scrapeTweets calendarDate ?st (decemberPage @ januaryPage @ marchPage))
          = [?jan, ?undated]
      \<and> withinRange calendarDate 1704067200000 1706659200000 ?jan
      \<and> \<not> isActive newScraper
      \<and> \<not> outsideDateRange calendarDate januaryConfig ?undated
      \<and> \<not> outsideDateRange calendarDate januaryConfig ?odd
      \<and> scrapeOne calendarDate januaryConfig [] ?odd = [?odd]"
    by simp
  with v2 c5 show ?thesis by blast
qed

text \<open>
  C6. A second cycle over the same tweet nodes leaves the accumulated tweets as the first
  cycle left them.
\<close>

theorem second_pass_adds_nothing:
  "allTweets (scrapeTweets P (scrapeTweets P st es) es) = allTweets (scrapeTweets P st es)"
  by (simp add: allTweets_scrapeTweets foldl_scrapeOne_idem)

text \<open>
  C10. A candidate with the first 50 characters of the text and the timestamp of a
  retained tweet is not appended, whatever the rest of its text; so no two tweets
  accumulated in a run agree on both.
\<close>

theorem fingerprint_rejects:
  "(t \<in> set acc \<and> take 50 (text' t) = take 50 (text' p) \<and> timestamp t = timestamp p
      \<longrightarrow> scrapeOne P cfg acc p = acc)
   \<and> (\<not> isActive st \<longrightarrow>
        (\<forall>i j. i < j \<and> j < length (allTweets (startScraping P cfg st page ticks)) \<longrightarrow>
           \<not> (take 50 (text' (allTweets (startScraping P cfg st page ticks) ! i))
                = take 50 (text' (allTweets (startScraping P cfg st page ticks) ! j))
              \<and> timestamp (allTweets (startScraping P cfg st page ticks) ! i)
                = timestamp (allTweets (startScraping P cfg st page ticks) ! j))))"
proof (intro conjI impI allI notI)
  assume "t \<in> set acc \<and> take 50 (text' t) = take 50 (text' p) \<and> timestamp t = timestamp p"
  then have m: "t \<in> set acc" and e1: "take 50 (text' t) = take 50 (text' p)"
    and e2: "timestamp t = timestamp p"
    by blast+
  from e1 e2 have "uniqueId t = uniqueId p"
    by (rule uniqueId_cong)
  with m have "alreadyExists acc p"
    unfolding alreadyExists_iff by blast
  then show "scrapeOne P cfg acc p = acc"
    by (rule scrapeOne_exists)
next
  let ?R = "allTweets (startScraping P cfg st page ticks)"
  fix i j
  assume idle: "\<not> isActive st" and ij: "i < j \<and> j < length ?R"
    and same: "take 50 (text' (?R ! i)) = take 50 (text' (?R ! j))
               \<and> timestamp (?R ! i) = timestamp (?R ! j)"
  from idle have "uniqueTweets ?R"
    by (rule run_unique)
  then have "distinct (map uniqueId ?R)"
    by (simp add: uniqueTweets_def)
  from nth_eq_iff_index_eq [OF this, of i j] ij
  have "uniqueId (?R ! i) \<noteq> uniqueId (?R ! j)"
    by simp
  moreover from same have "uniqueId (?R ! i) = uniqueId (?R ! j)"
    by (intro uniqueId_cong) blast+
  ultimately show False
    by blast
qed

theorem fingerprint_rejects_witness:
  "plainTweet longTextA ''2024-01-15'' ''ann'' \<in> set [plainTweet longTextA ''2024-01-15'' ''ann'']
   \<and> take 50 longTextA = take 50 longTextB
   \<and> longTextA \<noteq> longTextB
   \<and> scrapeOne calendarDate allConfig [plainTweet longTextA ''2024-01-15'' ''ann'']
        (plainTweet longTextB ''2024-01-15'' ''bob'')
      = [plainTweet longTextA ''2024-01-15'' ''ann'']
   \<and> \<not> isActive newScraper
   \<and> allTweets (startScraping calendarDate allConfig newScraper
        [tweetNode longTextA ''2024-01-15'' ''ann'' False,
         tweetNode longTextB ''2024-01-15'' ''bob'' False,
         tweetNode ''something else'' ''2024-01-15'' ''bob'' False] [])
      = [plainTweet longTextA ''2024-01-15'' ''ann'',
         plainTweet ''something else'' ''2024-01-15'' ''bob'']
   \<and> timestamp (allTweets (startScraping calendarDate allConfig newScraper
        [tweetNode longTextA ''2024-01-15'' ''ann'' False,
         tweetNode longTextB ''2024-01-15'' ''bob'' False,
         tweetNode ''something else'' ''2024-01-15'' ''bob'' False] []) ! 0)
      = timestamp (allTweets (startScraping calendarDate allConfig newScraper
        [tweetNode longTextA ''2024-01-15'' ''ann'' False,
         tweetNode longTextB ''2024-01-15'' ''bob'' False,
         tweetNode ''something else'' ''2024-01-15'' ''bob'' False] []) ! 1)
   \<and> take 50 (text' (allTweets (startScraping calendarDate allConfig newScraper
        [tweetNode longTextA ''2024-01-15'' ''ann'' False,
         tweetNode longTextB ''2024-01-15'' ''bob'' False,
         tweetNode ''something else'' ''2024-01-15'' ''bob'' False] []) ! 0))
      \<noteq> take 50 (text' (allTweets (startScraping calendarDate allConfig newScraper
        [tweetNode longTextA ''2024-01-15'' ''ann'' False,
         tweetNode longTextB ''2024-01-15'' ''bob'' False,
         tweetNode ''something else'' ''2024-01-15'' ''bob'' False] []) ! 1))"
proof -
  let ?a = "plainTweet longTextA ''2024-01-15'' ''ann''"
  let ?b = "plainTweet longTextB ''2024-01-15'' ''bob''"
  let ?page = "[tweetNode longTextA ''2024-01-15'' ''ann'' False,
                tweetNode longTextB ''2024-01-15'' ''bob'' False,
                tweetNode ''something else'' ''2024-01-15'' ''bob'' False]"
  let ?R = "allTweets (startScraping calendarDate allConfig newScraper ?page [])"
  have p: "take 50 longTextA = take 50 longTextB"
    by (simp add: longTextA_def longTextB_def)
  have d: "longTextA \<noteq> longTextB"
    by (simp add: longTextA_def longTextB_def)
  have h1: "?a \<in> set [?a] \<and> take 50 (text' ?a) = take 50 (text' ?b) \<and> timestamp ?a = timestamp ?b"
    using p by (simp add: plainTweet_def)
  have h2: "\<not> isActive newScraper"
    by (simp add: newScraper_def)
  have v: "?R = [?a, plainTweet ''something else'' ''2024-01-15'' ''bob'']"
    by code_simp
  note inst = fingerprint_rejects [where t = "?a" and acc = "[?a]" and p = "?b" and P = calendarDate
      and cfg = allConfig and st = newScraper and page = "?page" and ticks = "[]"]
  from inst h1 have c1: "scrapeOne calendarDate allConfig [?a] ?b = [?a]"
    by blast
  have ts: "timestamp (?R ! 0) = timestamp (?R ! 1)"
    by (simp add: v plainTweet_def)
  from inst h2 have "(0::nat) < 1 \<and> 1 < length ?R \<longrightarrow>
      \<not> (take 50 (text' (?R ! 0)) = take 50 (text' (?R ! 1)) \<and> timestamp (?R ! 0) = timestamp (?R ! 1))"
    by blast
  with ts have c2: "take 50 (text' (?R ! 0)) \<noteq> take 50 (text' (?R ! 1))"
    by (simp add: v)
  from p d c1 h2 v ts c2 show ?thesis
    by simp
qed

section \<open>The controller: stopping, seeking, starting\<close>

lemma getCurrentTweetDates_map:
  "getCurrentTweetDates P n page
   = map (\<lambda>el. P (orEmpty (datetime el))) (filter (\<lambda>el. truthyStr (datetime el)) (take n page))"
  unfolding getCurrentTweetDates_def by (induction "take n page" arbitrary: n page)
    (simp_all add: List.map_filter_def comp_def cong: filter_cong map_cong)

lemma first_cycle:
  "isActive st \<Longrightarrow>
   allTweets (scrapeAndScroll P st page [])
   = foldl (scrapeOne P (config st)) (allTweets st) (processTweetsForThreads page)"
  by (simp add: scrapeAndScroll.simps [of P st page "[]"] Let_def allTweets_scrapeTweets)

lemma seekLoop_in_range:
  assumes "attempts < 50" and "isActive st"
    and "list_ex (\<lambda>d. dateGe d s \<and> dateLe d e) (getCurrentTweetDates P 3 page)"
  shows "seekLoop P s e st attempts page ticks
         = scrapeAndScroll P (sendStatusUpdate ''Found tweets in range, scraping...'' st) page ticks"
proof -
  from assms(3) have "getCurrentTweetDates P 3 page \<noteq> []"
    by auto
  with assms show ?thesis
    by (subst seekLoop.simps) (simp add: Let_def)
qed

lemma dateGt_not_dateLe: "dateGt d e \<Longrightarrow> \<not> dateLe d e"
  by (auto simp: dateGt_def dateLe_def split: option.splits)

lemma seekLoop_too_new:
  assumes "attempts < 50" and "isActive st"
    and "getCurrentTweetDates P 3 page \<noteq> []"
    and "list_all (\<lambda>d. dateGt d e) (getCurrentTweetDates P 3 page)"
  shows "seekLoop P s e st attempts page []  = wait 2000 (scrollDown st)"
    and "seekLoop P s e st attempts page (t # ts)
         = seekLoop P s e (deliver t (wait 2000 (scrollDown st))) (attempts + 1) (rendered t) ts"
proof -
  from assms(4) have "\<not> list_ex (\<lambda>d. dateGe d s \<and> dateLe d e) (getCurrentTweetDates P 3 page)"
    by (auto simp: list_ex_iff list_all_iff dateGt_not_dateLe)
  with assms show "seekLoop P s e st attempts page []  = wait 2000 (scrollDown st)"
    and "seekLoop P s e st attempts page (t # ts)
         = seekLoop P s e (deliver t (wait 2000 (scrollDown st))) (attempts + 1) (rendered t) ts"
    by (subst seekLoop.simps, simp add: Let_def)+
qed

lemma seekLoop_too_new_run:
  assumes "getCurrentTweetDates P 3 page \<noteq> []"
    and "list_all (\<lambda>d. dateGt d e) (getCurrentTweetDates P 3 page)"
  shows "isActive st \<Longrightarrow> attempts \<le> 50 \<Longrightarrow>
         \<exists>st'. allTweets st' = allTweets st \<and> config st' = config st \<and> isActive st'
           \<and> seekLoop P s e st attempts page (replicate (50 - attempts) (quietTick page) @ rest)
             = scrapeAndScroll P st' page rest"
proof (induction "50 - attempts" arbitrary: st attempts)
  case 0
  then have "seekLoop P s e st attempts page (replicate (50 - attempts) (quietTick page) @ rest)
             = scrapeAndScroll P (sendStatusUpdate ''Starting scraping from current position'' st) page rest"
    by (simp add: seekLoop_exit)
  moreover from 0 have "isActive (sendStatusUpdate ''Starting scraping from current position'' st)"
    by simp
  ultimately show ?case
    by (intro exI [where x = "sendStatusUpdate ''Starting scraping from current position'' st"]) simp
next
  case (Suc n)
  from Suc.hyps(2) have a: "attempts < 50" and n: "n = 50 - (attempts + 1)"
    and r: "replicate (50 - attempts) (quietTick page) = quietTick page # replicate n (quietTick page)"
    by (simp_all add: replicate_Suc [symmetric] del: replicate_Suc)
  let ?st = "wait 2000 (scrollDown st)"
  from Suc.prems have "isActive ?st" and "attempts + 1 \<le> 50"
    using a by simp_all
  from Suc.hyps(1) [OF n this] obtain st' where st': "allTweets st' = allTweets ?st"
    "config st' = config ?st" "isActive st'"
    "seekLoop P s e ?st (attempts + 1) page (replicate (50 - (attempts + 1)) (quietTick page) @ rest)
     = scrapeAndScroll P st' page rest"
    by blast
  have "seekLoop P s e st attempts page (replicate (50 - attempts) (quietTick page) @ rest)
        = seekLoop P s e (deliver (quietTick page) ?st) (attempts + 1) (rendered (quietTick page))
            (replicate n (quietTick page) @ rest)"
    unfolding r using seekLoop_too_new(2) [OF a Suc.prems(1) assms] by simp
  also have "\<dots> = scrapeAndScroll P st' page rest"
    using st'(4) by (simp add: n deliver_def quietTick_def)
  finally show ?case
    using st' by (intro exI [where x = st']) simp
qed

text \<open>
  C5. With a positive \<open>maxTweets\<close> and neither a date range nor \<open>scrapeAll\<close>, the stop
  condition holds iff the accumulated tweets are at least \<open>maxTweets\<close>. With \<open>scrapeAll\<close>
  alone it never holds. With a date range alone it holds iff at least three of the first
  five tweet nodes have a non-empty \<open>datetime\<close> and the date of each such \<open>datetime\<close> is
  before the start date (which no Invalid Date is).
\<close>

theorem stop_condition:
  "(maxTweets (config st) = Some N \<and> 0 < N \<and> dateRange (config st) = None \<and> \<not> scrapeAll (config st)
      \<longrightarrow> shouldStopScraping P st page = (N \<le> int (length (allTweets st))))
   \<and> (maxTweets (config st) = None \<and> dateRange (config st) = None \<and> scrapeAll (config st)
      \<longrightarrow> shouldStopScraping P st page = False)
   \<and> (maxTweets (config st) = None \<and> dateRange (config st) = Some r \<and> \<not> scrapeAll (config st)
      \<longrightarrow> shouldStopScraping P st page
          = (3 \<le> length (filter (\<lambda>el. truthyStr (datetime el)) (take 5 page))
             \<and> (\<forall>el\<in>set (take 5 page). truthyStr (datetime el)
                  \<longrightarrow> dateLt (P (orEmpty (datetime el))) (P (start r)))))"
  by (auto simp: shouldStopScraping_def limitReached_def getCurrentTweetDates_map Let_def
      list_all_iff)

theorem stop_condition_witness:
  "maxTweets twoTweetsConfig = Some 2 \<and> dateRange twoTweetsConfig = None \<and> \<not> scrapeAll twoTweetsConfig
   \<and> shouldStopScraping calendarDate
        (newScraper\<lparr> config := twoTweetsConfig,
                      allTweets := [plainTweet ''december one'' ''2023-12-01'' ''ann'',
                                    plainTweet ''december two'' ''2023-12-01'' ''bob''] \<rparr>) marchPage
   \<and> \<not> shouldStopScraping calendarDate
        (newScraper\<lparr> config := twoTweetsConfig,
                      allTweets := [plainTweet ''december one'' ''2023-12-01'' ''ann''] \<rparr>) marchPage
   \<and> maxTweets allConfig = None \<and> dateRange allConfig = None \<and> scrapeAll allConfig
   \<and> \<not> shouldStopScraping calendarDate (newScraper\<lparr> config := allConfig \<rparr>) decemberPage
   \<and> maxTweets januaryConfig = None \<and> \<not> scrapeAll januaryConfig
   \<and> dateRange januaryConfig = Some \<lparr> start = ''2024-01-01'', end' = ''2024-01-31'' \<rparr>
   \<and> shouldStopScraping calendarDate (newScraper\<lparr> config := januaryConfig \<rparr>) decemberPage
   \<and> \<not> shouldStopScraping calendarDate (newScraper\<lparr> config := januaryConfig \<rparr>)
         (januaryPage @ decemberPage)"
proof -
  let ?one = "plainTweet ''december one'' ''2023-12-01'' ''ann''"
  let ?two = "plainTweet ''december two'' ''2023-12-01'' ''bob''"
  let ?r = "\<lparr> start = ''2024-01-01'', end' = ''2024-01-31'' \<rparr>"
  have c: "maxTweets twoTweetsConfig = Some 2" "dateRange twoTweetsConfig = None"
    "\<not> scrapeAll twoTweetsConfig"
    by (simp_all add: twoTweetsConfig_def popupConfig_def)
  have a: "maxTweets allConfig = None" "dateRange allConfig = None" "scrapeAll allConfig"
    by (simp_all add: allConfig_def popupConfig_def)
  have j: "maxTweets januaryConfig = None" "dateRange januaryConfig = Some ?r"
    "\<not> scrapeAll januaryConfig"
    by (simp_all add: januaryConfig_def popupConfig_def)
  from stop_condition [where st = "newScraper\<lparr> config := twoTweetsConfig, allTweets := [?one, ?two] \<rparr>"
      and N = 2 and P = calendarDate and page = marchPage] c
  have r1: "shouldStopScraping calendarDate
              (newScraper\<lparr> config := twoTweetsConfig, allTweets := [?one, ?two] \<rparr>) marchPage"
    by simp
  from stop_condition [where st = "newScraper\<lparr> config := twoTweetsConfig, allTweets := [?one] \<rparr>"
      and N = 2 and P = calendarDate and page = marchPage] c
  have r2: "\<not> shouldStopScraping calendarDate
              (newScraper\<lparr> config := twoTweetsConfig, allTweets := [?one] \<rparr>) marchPage"
    by simp
  from stop_condition [where st = "newScraper\<lparr> config := allConfig \<rparr>" and P = calendarDate
      and page = decemberPage] a
  have r3: "\<not> shouldStopScraping calendarDate (newScraper\<lparr> config := allConfig \<rparr>) decemberPage"
    by simp
  have d: "3 \<le> length (filter (\<lambda>el. truthyStr (datetime el)) (take 5 decemberPage))
           \<and> (\<forall>el\<in>set (take 5 decemberPage). truthyStr (datetime el)
                \<longrightarrow> dateLt (calendarDate (orEmpty (datetime el))) (calendarDate (start ?r)))"
    by (simp add: decemberPage_def tweetNode_def truthyStr_def orEmpty_def calendarDate_def dateLt_def)
  from stop_condition [where st = "newScraper\<lparr> config := januaryConfig \<rparr>" and P = calendarDate
      and page = decemberPage and r = "?r"] j d
  have r4: "shouldStopScraping calendarDate (newScraper\<lparr> config := januaryConfig \<rparr>) decemberPage"
    by simp
  have "\<not> 3 \<le> length (filter (\<lambda>el. truthyStr (datetime el)) (take 5 (januaryPage @ decemberPage)))
        \<or> \<not> (\<forall>el\<in>set (take 5 (januaryPage @ decemberPage)). truthyStr (datetime el)
                \<longrightarrow> dateLt (calendarDate (orEmpty (datetime el))) (calendarDate (start ?r)))"
    by (simp add: januaryPage_def decemberPage_def tweetNode_def truthyStr_def orEmpty_def
        calendarDate_def dateLt_def)
  with stop_condition [where st = "newScraper\<lparr> config := januaryConfig \<rparr>" and P = calendarDate
      and page = "januaryPage @ decemberPage" and r = "?r"] j
  have r5: "\<not> shouldStopScraping calendarDate (newScraper\<lparr> config := januaryConfig \<rparr>)
              (januaryPage @ decemberPage)"
    by simp
  from c a j r1 r2 r3 r4 r5 show ?thesis
    by simp
qed

text \<open>
  C8. A start while the scraper is active changes nothing. A start while it is not
  active runs the seeking of the date range, or the first cycle when there is no range,
  from the state with the new configuration, no tweets and the active flag set; the
  configuration stays the new one, and without a date range the tweets after the first
  cycle are those a cycle from no tweets collects.
\<close>

theorem start_command:
  "(isActive st \<longrightarrow> startScraping P cfg st page ticks = st)
   \<and> (\<not> isActive st \<longrightarrow>
        startScraping P cfg st page ticks
        = (if dateRange cfg \<noteq> None
           then scrollToDateRange P
                  (st\<lparr> config := cfg, isActive := True, allTweets := [],
                        events := events st @ [StatusUpdate ''Starting scraping...'' 0] \<rparr>) page ticks
           else scrapeAndScroll P
                  (st\<lparr> config := cfg, isActive := True, allTweets := [],
                        events := events st @ [StatusUpdate ''Starting scraping...'' 0] \<rparr>) page ticks)
        \<and> config (startScraping P cfg st page ticks) = cfg)
   \<and> (\<not> isActive st \<and> dateRange cfg = None \<longrightarrow>
        allTweets (startScraping P cfg st page [])
        = foldl (scrapeOne P cfg) [] (processTweetsForThreads page))"
proof (intro conjI impI)
  assume "isActive st"
  then show "startScraping P cfg st page ticks = st"
    by (simp add: startScraping_def)
next
  assume "\<not> isActive st"
  then show "startScraping P cfg st page ticks
        = (if dateRange cfg \<noteq> None
           then scrollToDateRange P
                  (st\<lparr> config := cfg, isActive := True, allTweets := [],
                        events := events st @ [StatusUpdate ''Starting scraping...'' 0] \<rparr>) page ticks
           else scrapeAndScroll P
                  (st\<lparr> config := cfg, isActive := True, allTweets := [],
                        events := events st @ [StatusUpdate ''Starting scraping...'' 0] \<rparr>) page ticks)"
    by (simp add: startScraping_def Let_def sendStatusUpdate_def)
next
  assume idle: "\<not> isActive st"
  have "True" ..
  from startScraping_invariant [where Q = "\<lambda>acc. True" and P = P and cfg = cfg, OF this this idle]
  show "config (startScraping P cfg st page ticks) = cfg"
    by simp
next
  assume "\<not> isActive st \<and> dateRange cfg = None"
  then show "allTweets (startScraping P cfg st page [])
             = foldl (scrapeOne P cfg) [] (processTweetsForThreads page)"
    by (simp add: startScraping_def Let_def first_cycle)
qed

theorem start_command_witness:
  "isActive (newScraper\<lparr> isActive := True, config := twoTweetsConfig,
                          allTweets := [plainTweet ''december one'' ''2023-12-01'' ''ann''] \<rparr>)
   \<and> startScraping calendarDate allConfig
        (newScraper\<lparr> isActive := True, config := twoTweetsConfig,
                      allTweets := [plainTweet ''december one'' ''2023-12-01'' ''ann''] \<rparr>)
        marchPage [quietTick marchPage]
      = newScraper\<lparr> isActive := True, config := twoTweetsConfig,
                     allTweets := [plainTweet ''december one'' ''2023-12-01'' ''ann''] \<rparr>
   \<and> \<not> isActive (newScraper\<lparr> config := twoTweetsConfig,
                              allTweets := [plainTweet ''december one'' ''2023-12-01'' ''ann''] \<rparr>)
   \<and> dateRange allConfig = None
   \<and> config (startScraping calendarDate allConfig
        (newScraper\<lparr> config := twoTweetsConfig,
                      allTweets := [plainTweet ''december one'' ''2023-12-01'' ''ann''] \<rparr>)
        marchPage []) = allConfig
   \<and> allTweets (startScraping calendarDate allConfig
        (newScraper\<lparr> config := twoTweetsConfig,
                      allTweets := [plainTweet ''december one'' ''2023-12-01'' ''ann''] \<rparr>)
        marchPage [])
      = [plainTweet ''a post from march'' ''2024-03-10'' ''ann'',
         plainTweet ''a post without a time'' [] ''bob'']"
proof -
  let ?old = "[plainTweet ''december one'' ''2023-12-01'' ''ann'']"
  let ?busy = "newScraper\<lparr> isActive := True, config := twoTweetsConfig, allTweets := ?old \<rparr>"
  let ?idle = "newScraper\<lparr> config := twoTweetsConfig, allTweets := ?old \<rparr>"
  have b: "isActive ?busy"
    by simp
  have i: "\<not> isActive ?idle"
    by (simp add: newScraper_def)
  have d: "dateRange allConfig = None"
    by (simp add: allConfig_def popupConfig_def)
  have v: "foldl (scrapeOne calendarDate allConfig) [] (processTweetsForThreads marchPage)
           = [plainTweet ''a post from march'' ''2024-03-10'' ''ann'',
              plainTweet ''a post without a time'' [] ''bob'']"
    by code_simp
  from start_command [where st = "?busy" and P = calendarDate and cfg = allConfig
      and page = marchPage and ticks = "[quietTick marchPage]"] b
  have r1: "startScraping calendarDate allConfig ?busy marchPage [quietTick marchPage] = ?busy"
    by blast
  from start_command [where st = "?idle" and P = calendarDate and cfg = allConfig
      and page = marchPage and ticks = "[]"] i d
  have r2: "config (startScraping calendarDate allConfig ?idle marchPage []) = allConfig"
    and r3: "allTweets (startScraping calendarDate allConfig ?idle marchPage [])
             = foldl (scrapeOne calendarDate allConfig) [] (processTweetsForThreads marchPage)"
    by blast+
  from b r1 i d r2 r3 v show ?thesis
    by simp
qed

text \<open>
  C7, as the script has it. In an iteration of the seeking loop, that is with fewer than
  50 attempts made and the scraper active: when one of the dates read from the first three
  tweet nodes lies between the start and the end date, both included, the loop ends and
  the collection starts on the page as it is; when there is a date and all dates are
  after the end date, the script scrolls down and waits two seconds, no tweet is
  collected, and the loop is entered again with one attempt more and the page as it is
  after the wait. That entry samples again only with fewer than 50 attempts and the scraper
  still active: with 50 attempts the collection starts on the page as it is, whatever its
  dates, and a scraper stopped meanwhile leaves the loop as it is.
\<close>

theorem seeking_iteration:
  assumes "attempts < 50" and "isActive st"
  shows "((\<exists>d\<in>set (getCurrentTweetDates P 3 page). dateGe d s \<and> dateLe d e)
            \<longrightarrow> seekLoop P s e st attempts page ticks
                = scrapeAndScroll P (sendStatusUpdate ''Found tweets in range, scraping...'' st) page ticks)
         \<and> (getCurrentTweetDates P 3 page \<noteq> []
             \<and> (\<forall>d\<in>set (getCurrentTweetDates P 3 page). dateGt d e)
            \<longrightarrow> seekLoop P s e st attempts page [] = wait 2000 (scrollDown st)
                \<and> seekLoop P s e st attempts page (t # ts)
                  = seekLoop P s e (deliver t (wait 2000 (scrollDown st))) (attempts + 1) (rendered t) ts
                \<and> allTweets (deliver t (wait 2000 (scrollDown st))) = allTweets st)
         \<and> seekLoop P s e st' 50 page ticks
           = scrapeAndScroll P (sendStatusUpdate ''Starting scraping from current position'' st') page ticks
         \<and> (\<not> isActive st' \<longrightarrow> seekLoop P s e st' attempts page ticks = st')"
proof (intro conjI impI)
  assume "\<exists>d\<in>set (getCurrentTweetDates P 3 page). dateGe d s \<and> dateLe d e"
  then have "list_ex (\<lambda>d. dateGe d s \<and> dateLe d e) (getCurrentTweetDates P 3 page)"
    by (simp add: list_ex_iff)
  with assms show "seekLoop P s e st attempts page ticks
      = scrapeAndScroll P (sendStatusUpdate ''Found tweets in range, scraping...'' st) page ticks"
    by (rule seekLoop_in_range)
next
  assume "getCurrentTweetDates P 3 page \<noteq> []
          \<and> (\<forall>d\<in>set (getCurrentTweetDates P 3 page). dateGt d e)"
  then have ne: "getCurrentTweetDates P 3 page \<noteq> []"
    and new: "list_all (\<lambda>d. dateGt d e) (getCurrentTweetDates P 3 page)"
    by (simp_all add: list_all_iff)
  from assms ne new show "seekLoop P s e st attempts page [] = wait 2000 (scrollDown st)"
    by (rule seekLoop_too_new(1))
  from assms ne new show "seekLoop P s e st attempts page (t # ts)
      = seekLoop P s e (deliver t (wait 2000 (scrollDown st))) (attempts + 1) (rendered t) ts"
    by (rule seekLoop_too_new(2))
  show "allTweets (deliver t (wait 2000 (scrollDown st))) = allTweets st"
    by simp
next
  show "seekLoop P s e st' 50 page ticks
        = scrapeAndScroll P (sendStatusUpdate ''Starting scraping from current position'' st') page ticks"
    by (simp add: seekLoop_exit)
next
  assume "\<not> isActive st'"
  with assms(1) show "seekLoop P s e st' attempts page ticks = st'"
    by (simp add: seekLoop_exit)
qed

theorem seeking_iteration_witness:
  "(0::nat) < 50 \<and> isActive (newScraper\<lparr> config := januaryConfig, isActive := True \<rparr>)
   \<and> getCurrentTweetDates calendarDate 3 januaryPage = [calendarDate ''2024-01-15'']
   \<and> dateGe (calendarDate ''2024-01-15'') (calendarDate ''2024-01-01'')
   \<and> dateLe (calendarDate ''2024-01-15'') (calendarDate ''2024-01-31'')
   \<and> seekLoop calendarDate (calendarDate ''2024-01-01'') (calendarDate ''2024-01-31'')
        (newScraper\<lparr> config := januaryConfig, isActive := True \<rparr>) 0 januaryPage []
      = scrapeAndScroll calendarDate
          (sendStatusUpdate ''Found tweets in range, scraping...''
             (newScraper\<lparr> config := januaryConfig, isActive := True \<rparr>)) januaryPage []
   \<and> getCurrentTweetDates calendarDate 3 marchPage = [calendarDate ''2024-03-10'']
   \<and> dateGt (calendarDate ''2024-03-10'') (calendarDate ''2024-01-31'')
   \<and> seekLoop calendarDate (calendarDate ''2024-01-01'') (calendarDate ''2024-01-31'')
        (newScraper\<lparr> config := januaryConfig, isActive := True \<rparr>) 0 marchPage [quietTick januaryPage]
      = seekLoop calendarDate (calendarDate ''2024-01-01'') (calendarDate ''2024-01-31'')
          (deliver (quietTick januaryPage)
             (wait 2000 (scrollDown (newScraper\<lparr> config := januaryConfig, isActive := True \<rparr>))))
          (0 + 1) (rendered (quietTick januaryPage)) []
   \<and> \<not> isActive newScraper
   \<and> seekLoop calendarDate (calendarDate ''2024-01-01'') (calendarDate ''2024-01-31'')
        newScraper 0 marchPage [quietTick januaryPage] = newScraper"
proof -
  let ?st = "newScraper\<lparr> config := januaryConfig, isActive := True \<rparr>"
  let ?s = "calendarDate ''2024-01-01''"
  let ?e = "calendarDate ''2024-01-31''"
  have a: "(0::nat) < 50" and b: "isActive ?st"
    by simp_all
  have j: "getCurrentTweetDates calendarDate 3 januaryPage = [calendarDate ''2024-01-15'']"
    by (simp add: getCurrentTweetDates_map januaryPage_def tweetNode_def truthyStr_def orEmpty_def)
  have m: "getCurrentTweetDates calendarDate 3 marchPage = [calendarDate ''2024-03-10'']"
    by (simp add: getCurrentTweetDates_map marchPage_def tweetNode_def truthyStr_def orEmpty_def)
  have c: "dateGe (calendarDate ''2024-01-15'') ?s" "dateLe (calendarDate ''2024-01-15'') ?e"
    "dateGt (calendarDate ''2024-03-10'') ?e"
    by (simp_all add: calendarDate_def dateGe_def dateLe_def dateGt_def)
  from seeking_iteration [OF a b, where P = calendarDate and page = januaryPage and s = "?s"
      and e = "?e" and ticks = "[]"] j c
  have r1: "seekLoop calendarDate ?s ?e ?st 0 januaryPage []
            = scrapeAndScroll calendarDate
                (sendStatusUpdate ''Found tweets in range, scraping...'' ?st) januaryPage []"
    by simp
  from seeking_iteration [OF a b, where P = calendarDate and page = marchPage and s = "?s"
      and e = "?e" and t = "quietTick januaryPage" and ts = "[]"] m c
  have r2: "seekLoop calendarDate ?s ?e ?st 0 marchPage [quietTick januaryPage]
            = seekLoop calendarDate ?s ?e (deliver (quietTick januaryPage) (wait 2000 (scrollDown ?st)))
                (0 + 1) (rendered (quietTick januaryPage)) []"
    by simp
  have i: "\<not> isActive newScraper"
    by (simp add: newScraper_def)
  with seeking_iteration [OF a b, where P = calendarDate and page = marchPage and s = "?s"
      and e = "?e" and st' = newScraper and ticks = "[quietTick januaryPage]"]
  have r3: "seekLoop calendarDate ?s ?e newScraper 0 marchPage [quietTick januaryPage] = newScraper"
    by blast
  from a b j m c r1 r2 i r3 show ?thesis
    by blast
qed

text \<open>
  The claim C7 as it was stated fails at the fiftieth attempt. The page holds a tweet of
  March 2024 and a tweet without a time, the range is January 2024, and the page stays as
  it is through fifty waits: every sample is the one date of March, after the end date,
  and yet the collection runs after the fiftieth wait and retains the tweet without a time.
\<close>

theorem seeking_retry_counterexample:
  "getCurrentTweetDates calendarDate 3 marchPage = [Some 1710028800000]
   \<and> dateGt (Some 1710028800000) (calendarDate ''2024-01-31'')
   \<and> allTweets (startScraping calendarDate januaryConfig newScraper marchPage
        (replicate 50 (quietTick marchPage)))
      = [plainTweet ''a post without a time'' [] ''bob'']"
proof -
  let ?st0 = "newScraper\<lparr> config := januaryConfig, isActive := True, allTweets := [],
                events := events newScraper @ [StatusUpdate ''Starting scraping...'' 0] \<rparr>"
  let ?st1 = "sendStatusUpdate ''Finding tweets in date range...'' ?st0"
  let ?s = "calendarDate ''2024-01-01''"
  let ?e = "calendarDate ''2024-01-31''"
  have m: "getCurrentTweetDates calendarDate 3 marchPage = [Some 1710028800000]"
    by (simp add: getCurrentTweetDates_map marchPage_def tweetNode_def truthyStr_def orEmpty_def
        calendarDate_def)
  have g: "dateGt (Some 1710028800000) ?e"
    by (simp add: calendarDate_def dateGt_def)
  have r: "dateRange januaryConfig = Some \<lparr> start = ''2024-01-01'', end' = ''2024-01-31'' \<rparr>"
    by (simp add: januaryConfig_def popupConfig_def)
  have "startScraping calendarDate januaryConfig newScraper marchPage (replicate 50 (quietTick marchPage))
        = seekLoop calendarDate ?s ?e ?st1 0 marchPage (replicate (50 - 0) (quietTick marchPage) @ [])"
    by (simp add: startScraping_def scrollToDateRange_def Let_def r newScraper_def sendStatusUpdate_def)
  moreover have "isActive ?st1" and "(0::nat) \<le> 50"
    by simp_all
  from seekLoop_too_new_run [where P = calendarDate and page = marchPage and e = "?e" and s = "?s"
      and rest = "[]", OF _ _ this] m g
  obtain st' where st': "allTweets st' = allTweets ?st1" "config st' = config ?st1" "isActive st'"
    "seekLoop calendarDate ?s ?e ?st1 0 marchPage (replicate (50 - 0) (quietTick marchPage) @ [])
     = scrapeAndScroll calendarDate st' marchPage []"
    by auto
  ultimately have "allTweets (startScraping calendarDate januaryConfig newScraper marchPage
        (replicate 50 (quietTick marchPage)))
      = foldl (scrapeOne calendarDate januaryConfig) [] (processTweetsForThreads marchPage)"
    by (simp add: first_cycle)
  also have "\<dots> = [plainTweet ''a post without a time'' [] ''bob'']"
    by code_simp
  finally show ?thesis
    using m g by simp
qed

end
